theory Spec2Isabelle
  imports Complex_Main
begin

section \<open>IPF allocation: the cell table and the two scaling steps\<close>

text \<open>
  The embedding follows \<^verbatim>\<open>src/ipf_allocation.py\<close>. A data frame is a list of rows, a
  numpy array a list of numbers aligned with the rows by position. In this first part the
  float64 operations of the source are read as the exact operations on real numbers; NaN
  and the infinities are not values (the one \<^verbatim>\<open>np.inf\<close> the solver itself writes, the
  initial \<^verbatim>\<open>final_max_change\<close>, is the value \<open>None\<close> below). What is proved of this
  reading about signs, zeros, comparisons and control flow is unchanged by rounding; an
  equality obtained by algebra is a statement about exact arithmetic, and a later section
  gives the scaling step with the binary64 rounding of every operation to show where the
  two differ. Key columns of the cell table (year, county, insurer, metal tier) hold no
  missing value.
\<close>

record cell =
  year :: int
  county :: string
  rating_area :: int
  insurer :: string
  plan :: string
  metal_tier :: string
  enrollment_est :: real

text \<open>The zero guard \<^verbatim>\<open>1e-10\<close> of both scaling steps and of the convergence check.\<close>

definition eps :: real where
  "eps = 1 / 10 ^ 10"

text \<open>The grouping keys of Step A and Step B.\<close>

definition ic_key :: "cell \<Rightarrow> string \<times> string" where
  "ic_key c = (insurer c, county c)"

definition mc_key :: "cell \<Rightarrow> string \<times> string" where
  "mc_key c = (metal_tier c, county c)"

text \<open>
  \<^verbatim>\<open>df.groupby(keys)["enrollment_est"].transform("sum").values\<close>: for every row, the
  sum of the estimates of the rows that share its key.
\<close>

definition group_sum :: "(cell \<Rightarrow> 'k) \<Rightarrow> cell list \<Rightarrow> 'k \<Rightarrow> real" where
  "group_sum key df k = sum_list (map enrollment_est (filter (\<lambda>c. key c = k) df))"

definition transform_sum :: "(cell \<Rightarrow> 'k) \<Rightarrow> cell list \<Rightarrow> real list" where
  "transform_sum key df = map (\<lambda>c. group_sum key df (key c)) df"

text \<open>\<^verbatim>\<open>np.where(group_sums > 1e-10, targets / group_sums, 0)\<close>.\<close>

definition where_factors :: "real list \<Rightarrow> real list \<Rightarrow> real list" where
  "where_factors targets group_sums =
     map (\<lambda>(t, s). if s > eps then t / s else 0) (zip targets group_sums)"

text \<open>\<^verbatim>\<open>df["enrollment_est"] = df["enrollment_est"].values * factors\<close>.\<close>

definition estimates :: "cell list \<Rightarrow> real list" where
  "estimates df = map enrollment_est df"

definition assign_est :: "cell list \<Rightarrow> real list \<Rightarrow> cell list" where
  "assign_est df vs = map (\<lambda>(c, v). c\<lparr>enrollment_est := v\<rparr>) (zip df vs)"

definition scale_step :: "(cell \<Rightarrow> 'k) \<Rightarrow> real list \<Rightarrow> cell list \<Rightarrow> cell list" where
  "scale_step key targets df =
     (let group_sums = transform_sum key df;
          factors = where_factors targets group_sums
      in assign_est df (map (\<lambda>(e, f). e * f) (zip (estimates df) factors)))"

definition step_A :: "real list \<Rightarrow> cell list \<Rightarrow> cell list" where
  "step_A ic_targets df = scale_step ic_key ic_targets df"

definition step_B :: "real list \<Rightarrow> cell list \<Rightarrow> cell list" where
  "step_B mc_targets df = scale_step mc_key mc_targets df"

text \<open>
  The margin lookup of one year: \<^verbatim>\<open>set_index([key, "county"])[target]\<close> is an
  association list from (key, county) to the target, and \<^verbatim>\<open>lookup.get(k, 0)\<close> returns 0
  for an absent key. \<^verbatim>\<open>clean_data\<close> has summed the rows of equal key, so a key occurs
  at most once.
\<close>

type_synonym margin = "((string \<times> string) \<times> real) list"

definition lookup_get :: "margin \<Rightarrow> string \<times> string \<Rightarrow> real" where
  "lookup_get m k = (case map_of m k of None \<Rightarrow> 0 | Some v \<Rightarrow> v)"

definition row_targets :: "(cell \<Rightarrow> string \<times> string) \<Rightarrow> margin \<Rightarrow> cell list \<Rightarrow> real list" where
  "row_targets key m df = map (\<lambda>c. lookup_get m (key c)) df"

section \<open>The convergence check and the solver loop\<close>

text \<open>
  \<^verbatim>\<open>nonzero = prev_est > 1e-10\<close> selects positions; the statistic is the largest
  \<^verbatim>\<open>|current - prev| / prev\<close> over the selected positions, and \<^verbatim>\<open>0.0\<close> when
  \<^verbatim>\<open>nonzero.any()\<close> is false.
\<close>

definition max_change :: "real list \<Rightarrow> real list \<Rightarrow> real" where
  "max_change prev_est current_est =
     (let nonzero = filter (\<lambda>(p, c). p > eps) (zip prev_est current_est)
      in if nonzero \<noteq> [] then Max (set (map (\<lambda>(p, c). \<bar>c - p\<bar> / p) nonzero)) else 0)"

text \<open>
  What the solver reports for a year, as the two messages it prints: convergence at an
  iteration with the change measured there, or the warning with \<^verbatim>\<open>max_iter\<close> and the
  last change (\<open>None\<close> is \<^verbatim>\<open>np.inf\<close>: no iteration ran).
\<close>

datatype message =
    Converged int int real
  | Not_converged int int "real option"

fun msg_year :: "message \<Rightarrow> int" where
  "msg_year (Converged y i d) = y"
| "msg_year (Not_converged y n d) = y"

text \<open>
  The variables of \<^verbatim>\<open>run_ipf\<close>. Python keeps \<^verbatim>\<open>df\<close>, \<^verbatim>\<open>converged\<close>,
  \<^verbatim>\<open>final_max_change\<close> and \<^verbatim>\<open>iteration\<close> alive from one year of the outer loop to
  the next, so they are fields of the one state that both loops pass along.
\<close>

record solver_state =
  df :: "cell list"
  converged :: bool
  final_max_change :: "real option"
  iteration :: int
  results :: "cell list list"
  log :: "message list"

text \<open>
  \<^verbatim>\<open>for iteration in range(1, max_iter + 1)\<close> with its \<^verbatim>\<open>break\<close>: the loop over the
  list of iteration numbers, left at the first pass whose change is below \<^verbatim>\<open>tol\<close>.
\<close>

fun ipf_loop :: "real list \<Rightarrow> real list \<Rightarrow> real \<Rightarrow> int \<Rightarrow> int list \<Rightarrow> solver_state \<Rightarrow> solver_state" where
  "ipf_loop ic_targets mc_targets tol yr [] st = st"
| "ipf_loop ic_targets mc_targets tol yr (i # rest) st =
     (let prev_est = estimates (df st);
          df1 = step_A ic_targets (df st);
          df2 = step_B mc_targets df1;
          current_est = estimates df2;
          mc = max_change prev_est current_est;
          st' = st\<lparr>df := df2, final_max_change := Some mc, iteration := i\<rparr>
      in if mc < tol
         then st'\<lparr>converged := True, log := log st' @ [Converged yr i mc]\<rparr>
         else ipf_loop ic_targets mc_targets tol yr rest st')"

text \<open>The control totals as \<^verbatim>\<open>clean_data\<close> hands them over: one row per year, key and county.\<close>

record target_row =
  t_year :: int
  t_key :: string
  t_county :: string
  t_value :: real

definition set_index :: "target_row list \<Rightarrow> margin" where
  "set_index ts = map (\<lambda>t. ((t_key t, t_county t), t_value t)) ts"

text \<open>The body of \<^verbatim>\<open>for yr in years\<close>.\<close>

definition year_body ::
  "cell list \<Rightarrow> target_row list \<Rightarrow> target_row list \<Rightarrow> int \<Rightarrow> real \<Rightarrow> int \<Rightarrow> solver_state \<Rightarrow> solver_state" where
  "year_body alloc county_insurer county_metal max_iter tol yr st =
     (let df0 = filter (\<lambda>c. year c = yr) alloc
      in if length df0 = 0 then st\<lparr>df := df0\<rparr>
         else
           let targets_ic = filter (\<lambda>t. t_year t = yr) county_insurer;
               targets_mc = filter (\<lambda>t. t_year t = yr) county_metal;
               ic_lookup = set_index targets_ic;
               mc_lookup = set_index targets_mc;
               ic_targets = row_targets ic_key ic_lookup df0;
               mc_targets = row_targets mc_key mc_lookup df0;
               st1 = ipf_loop ic_targets mc_targets tol yr [1..max_iter]
                       (st\<lparr>df := df0, converged := False, final_max_change := None\<rparr>);
               st2 = (if \<not> converged st1
                      then st1\<lparr>log := log st1 @ [Not_converged yr max_iter (final_max_change st1)]\<rparr>
                      else st1)
           in st2\<lparr>results := results st2 @ [df st2]\<rparr>)"

text \<open>
  \<^verbatim>\<open>pd.concat(results)\<close> raises on an empty list; otherwise the frames are joined in the
  order they were appended and the estimates are clipped below at 0.
\<close>

datatype error = ValueError

definition clip_lower :: "cell \<Rightarrow> cell" where
  "clip_lower c = c\<lparr>enrollment_est := max (enrollment_est c) 0\<rparr>"

definition initial_state :: solver_state where
  "initial_state = \<lparr>df = [], converged = False, final_max_change = None, iteration = 0,
                    results = [], log = []\<rparr>"

definition finish :: "solver_state \<Rightarrow> error + (cell list \<times> message list)" where
  "finish st = (if results st = [] then Inl ValueError
                else Inr (map clip_lower (concat (results st)), log st))"

text \<open>
  The year loop over a given processing order, and \<^verbatim>\<open>run_ipf\<close> itself, which takes the
  years of the table in ascending order.
\<close>

definition run_years ::
  "int list \<Rightarrow> cell list \<Rightarrow> target_row list \<Rightarrow> target_row list \<Rightarrow> int \<Rightarrow> real \<Rightarrow> solver_state \<Rightarrow> solver_state" where
  "run_years years alloc county_insurer county_metal max_iter tol st =
     fold (year_body alloc county_insurer county_metal max_iter tol) years st"

definition run_ipf ::
  "cell list \<Rightarrow> target_row list \<Rightarrow> target_row list \<Rightarrow> int \<Rightarrow> real \<Rightarrow> error + (cell list \<times> message list)" where
  "run_ipf alloc county_insurer county_metal max_iter tol =
     (let years = sort (remdups (map year alloc))
      in finish (run_years years alloc county_insurer county_metal max_iter tol initial_state))"

section \<open>Cleaning of the control totals and of the crosswalk, initial allocation\<close>

text \<open>
  A raw control-total row; \<open>None\<close> in the value is a missing or unparseable entry, which
  \<^verbatim>\<open>pd.to_numeric(..., errors="coerce").fillna(0)\<close> turns into 0. Every other number,
  negative ones too, is kept as it is. The county name goes through
  \<^verbatim>\<open>.str.upper().str.strip()\<close>, a library function taken as the parameter \<open>tidy\<close>.
  The rows of equal (year, key, county) are then summed; pandas also sorts the groups,
  which no lookup depends on, so the groups stay in order of first appearance.
\<close>

record raw_target =
  raw_year :: int
  raw_key :: string
  raw_county :: string
  raw_enrollees :: "real option"

definition to_numeric_fillna :: "real option \<Rightarrow> real" where
  "to_numeric_fillna v = (case v of None \<Rightarrow> 0 | Some x \<Rightarrow> x)"

definition target_id :: "target_row \<Rightarrow> int \<times> string \<times> string" where
  "target_id t = (t_year t, t_key t, t_county t)"

definition groupby_sum :: "target_row list \<Rightarrow> target_row list" where
  "groupby_sum ts =
     map (\<lambda>(y, k, c). \<lparr>t_year = y, t_key = k, t_county = c,
                        t_value = sum_list (map t_value (filter (\<lambda>t. target_id t = (y, k, c)) ts))\<rparr>)
         (remdups (map target_id ts))"

definition clean_targets :: "(string \<Rightarrow> string) \<Rightarrow> raw_target list \<Rightarrow> target_row list" where
  "clean_targets tidy raw =
     groupby_sum (map (\<lambda>r. \<lparr>t_year = raw_year r, t_key = raw_key r, t_county = tidy (raw_county r),
                             t_value = to_numeric_fillna (raw_enrollees r)\<rparr>) raw)"

text \<open>
  The crosswalk: (county name, rating area) rows, where \<open>None\<close> is a missing entry. The
  name of a row that has one is normalised and \<^verbatim>\<open>LA COUNTY\<close> renamed. Every row gets
  the weight \<^verbatim>\<open>1.0 / n\<close>, where \<open>n\<close> is
  \<^verbatim>\<open>groupby("rating_area")["county"].transform("count")\<close>: the number of rows of its
  rating area that have a county name. A weight that is no finite number is \<open>None\<close>:
  the infinite \<^verbatim>\<open>1.0 / 0\<close> of a rating area without any county name, and the NaN of a
  row without rating area, which belongs to no group.
\<close>

record crosswalk_row =
  cw_county :: "string option"
  cw_rating_area :: "int option"
  weight :: "real option"

definition replace_la :: "string \<Rightarrow> string" where
  "replace_la s = (if s = ''LA COUNTY'' then ''LOS ANGELES'' else s)"

definition n_per_ra :: "(string option \<times> int option) list \<Rightarrow> int \<Rightarrow> nat" where
  "n_per_ra cw ra = length (filter (\<lambda>(c, r). r = Some ra \<and> c \<noteq> None) cw)"

definition clean_crosswalk ::
  "(string \<Rightarrow> string) \<Rightarrow> (string option \<times> int option) list \<Rightarrow> crosswalk_row list" where
  "clean_crosswalk tidy raw =
     (let cw = map (\<lambda>(name, ra). (map_option (\<lambda>s. replace_la (tidy s)) name, ra)) raw
      in map (\<lambda>(c, ra). \<lparr>cw_county = c, cw_rating_area = ra,
                          weight = (case ra of
                                      None \<Rightarrow> None
                                    | Some a \<Rightarrow> if n_per_ra cw a = 0 then None
                                                else Some (1 / real (n_per_ra cw a)))\<rparr>) cw)"

text \<open>A row of the cleaned base table.\<close>

record base_row =
  b_year :: int
  b_rating_area :: int
  b_insurer :: string
  b_plan :: string
  b_metal_tier :: string
  enrollment :: real

text \<open>
  \<^verbatim>\<open>base.merge(crosswalk, on="rating_area", how="inner")\<close>: every base row is paired with
  every crosswalk row of its rating area, in the order of the base rows, and the estimate
  is \<^verbatim>\<open>enrollment * weight\<close>, no finite number when the weight is none. A row of the
  result has the columns of a cell, with a county name that may be missing; the solver
  above is modelled on tables in which every row has a name and a finite estimate.
\<close>

record alloc_row =
  a_year :: int
  a_county :: "string option"
  a_rating_area :: int
  a_insurer :: string
  a_plan :: string
  a_metal_tier :: string
  a_estimate :: "real option"

definition emit_cell :: "base_row \<Rightarrow> crosswalk_row \<Rightarrow> alloc_row" where
  "emit_cell b r = \<lparr>a_year = b_year b, a_county = cw_county r, a_rating_area = b_rating_area b,
                    a_insurer = b_insurer b, a_plan = b_plan b, a_metal_tier = b_metal_tier b,
                    a_estimate = map_option (\<lambda>w. enrollment b * w) (weight r)\<rparr>"

definition merge_rows :: "base_row \<Rightarrow> crosswalk_row list \<Rightarrow> alloc_row list" where
  "merge_rows b crosswalk =
     map (emit_cell b) (filter (\<lambda>r. cw_rating_area r = Some (b_rating_area b)) crosswalk)"

definition initial_allocation :: "base_row list \<Rightarrow> crosswalk_row list \<Rightarrow> alloc_row list" where
  "initial_allocation base crosswalk = concat (map (\<lambda>b. merge_rows b crosswalk) base)"

section \<open>Notions used to state the properties\<close>

text \<open>One full pass (Step A, then Step B) and the table after \<open>n\<close> passes.\<close>

definition ipf_pass :: "real list \<Rightarrow> real list \<Rightarrow> cell list \<Rightarrow> cell list" where
  "ipf_pass ic_targets mc_targets d = step_B mc_targets (step_A ic_targets d)"

definition ipf_iterate :: "real list \<Rightarrow> real list \<Rightarrow> nat \<Rightarrow> cell list \<Rightarrow> cell list" where
  "ipf_iterate ic_targets mc_targets n d = ((ipf_pass ic_targets mc_targets) ^^ n) d"

text \<open>The change statistic of pass \<open>k\<close> (counted from 1) of the run that starts at \<open>d\<close>.\<close>

definition delta :: "real list \<Rightarrow> real list \<Rightarrow> cell list \<Rightarrow> nat \<Rightarrow> real" where
  "delta ic_targets mc_targets d k =
     max_change (estimates (ipf_iterate ic_targets mc_targets (k - 1) d))
                (estimates (ipf_iterate ic_targets mc_targets k d))"

text \<open>A sequence of scaling steps applied one after the other.\<close>

datatype step = StepA | StepB

fun apply_step :: "real list \<Rightarrow> real list \<Rightarrow> step \<Rightarrow> cell list \<Rightarrow> cell list" where
  "apply_step ic_targets mc_targets StepA d = step_A ic_targets d"
| "apply_step ic_targets mc_targets StepB d = step_B mc_targets d"

definition apply_steps :: "real list \<Rightarrow> real list \<Rightarrow> step list \<Rightarrow> cell list \<Rightarrow> cell list" where
  "apply_steps ic_targets mc_targets steps d = fold (apply_step ic_targets mc_targets) steps d"

text \<open>All estimates of a table are at least 0; all targets of a control table are.\<close>

definition nonneg :: "cell list \<Rightarrow> bool" where
  "nonneg d = list_all (\<lambda>c. 0 \<le> enrollment_est c) d"

definition nonneg_targets :: "target_row list \<Rightarrow> bool" where
  "nonneg_targets ts = list_all (\<lambda>t. 0 \<le> t_value t) ts"

text \<open>The table of one year and its two target arrays, as the year loop builds them.\<close>

definition year_table :: "cell list \<Rightarrow> int \<Rightarrow> cell list" where
  "year_table alloc yr = filter (\<lambda>c. year c = yr) alloc"

definition year_ic_targets :: "cell list \<Rightarrow> target_row list \<Rightarrow> int \<Rightarrow> real list" where
  "year_ic_targets alloc county_insurer yr =
     row_targets ic_key (set_index (filter (\<lambda>t. t_year t = yr) county_insurer)) (year_table alloc yr)"

definition year_mc_targets :: "cell list \<Rightarrow> target_row list \<Rightarrow> int \<Rightarrow> real list" where
  "year_mc_targets alloc county_metal yr =
     row_targets mc_key (set_index (filter (\<lambda>t. t_year t = yr) county_metal)) (year_table alloc yr)"

text \<open>
  The solve of one year on its own: the loop started on the year's table with the
  variables as the year loop resets them, and nothing carried over from another year.
\<close>

definition fresh_state :: "cell list \<Rightarrow> solver_state" where
  "fresh_state d = \<lparr>df = d, converged = False, final_max_change = None, iteration = 0,
                    results = [], log = []\<rparr>"

definition solve_partition ::
  "cell list \<Rightarrow> target_row list \<Rightarrow> target_row list \<Rightarrow> int \<Rightarrow> real \<Rightarrow> int \<Rightarrow> solver_state" where
  "solve_partition alloc county_insurer county_metal max_iter tol yr =
     ipf_loop (year_ic_targets alloc county_insurer yr) (year_mc_targets alloc county_metal yr)
       tol yr [1..max_iter] (fresh_state (year_table alloc yr))"

definition partition_log ::
  "cell list \<Rightarrow> target_row list \<Rightarrow> target_row list \<Rightarrow> int \<Rightarrow> real \<Rightarrow> int \<Rightarrow> message list" where
  "partition_log alloc county_insurer county_metal max_iter tol yr =
     (let s = solve_partition alloc county_insurer county_metal max_iter tol yr
      in log s @ (if \<not> converged s then [Not_converged yr max_iter (final_max_change s)] else []))"

text \<open>The part of a state that the iteration loop reads.\<close>

definition loop_core :: "solver_state \<Rightarrow> solver_state" where
  "loop_core st = \<lparr>df = df st, converged = converged st, final_max_change = final_max_change st,
                   iteration = 0, results = [], log = []\<rparr>"

text \<open>The rows of a rating area, and the number of them that have a county name.\<close>

definition rows_of_ra :: "crosswalk_row list \<Rightarrow> int \<Rightarrow> crosswalk_row list" where
  "rows_of_ra cw ra = filter (\<lambda>r. cw_rating_area r = Some ra) cw"

definition named_of_ra :: "crosswalk_row list \<Rightarrow> int \<Rightarrow> nat" where
  "named_of_ra cw ra = length (filter (\<lambda>r. cw_county r \<noteq> None) (rows_of_ra cw ra))"

section \<open>Example tables\<close>

text \<open>
  Small inputs on which the theorems below are instantiated. \<open>ex_table\<close> is one year
  with two counties of one insurer and one metal tier, and a third cell without mass.
\<close>

definition ex_cell :: "int \<Rightarrow> string \<Rightarrow> string \<Rightarrow> string \<Rightarrow> real \<Rightarrow> cell" where
  "ex_cell y c i m e = \<lparr>year = y, county = c, rating_area = 1, insurer = i, plan = ''HMO'',
                        metal_tier = m, enrollment_est = e\<rparr>"

definition ex_target :: "int \<Rightarrow> string \<Rightarrow> string \<Rightarrow> real \<Rightarrow> target_row" where
  "ex_target y k c v = \<lparr>t_year = y, t_key = k, t_county = c, t_value = v\<rparr>"

definition ex_table :: "cell list" where
  "ex_table = [ex_cell 2020 ''A'' ''X'' ''Bronze'' 500, ex_cell 2020 ''B'' ''X'' ''Bronze'' 500,
               ex_cell 2020 ''A'' ''Z'' ''Silver'' 0]"

definition ex_ic :: margin where
  "ex_ic = [((''X'', ''A''), 300), ((''X'', ''B''), 500), ((''Z'', ''A''), 20)]"

definition ex_mc :: margin where
  "ex_mc = [((''Bronze'', ''A''), 350), ((''Bronze'', ''B''), 450), ((''Silver'', ''A''), 20)]"

definition ex_ict :: "real list" where
  "ex_ict = row_targets ic_key ex_ic ex_table"

definition ex_mct :: "real list" where
  "ex_mct = row_targets mc_key ex_mc ex_table"

definition ex_zero :: "cell list" where
  "ex_zero = [ex_cell 2020 ''A'' ''X'' ''Bronze'' 0, ex_cell 2020 ''B'' ''X'' ''Bronze'' 0]"

definition ex_state :: "cell list \<Rightarrow> solver_state" where
  "ex_state d = initial_state\<lparr>df := d\<rparr>"

definition ex_ci :: "target_row list" where
  "ex_ci = [ex_target 2020 ''X'' ''A'' 300, ex_target 2020 ''X'' ''B'' 500,
            ex_target 2020 ''Z'' ''A'' 20]"

definition ex_cm :: "target_row list" where
  "ex_cm = [ex_target 2020 ''Bronze'' ''A'' 350, ex_target 2020 ''Bronze'' ''B'' 450,
            ex_target 2020 ''Silver'' ''A'' 20]"

definition ex_table1 :: "cell list" where
  "ex_table1 = [ex_cell 2020 ''A'' ''X'' ''Bronze'' 350, ex_cell 2020 ''B'' ''X'' ''Bronze'' 450,
                ex_cell 2020 ''A'' ''Z'' ''Silver'' 0]"

definition ex_two_years :: "cell list" where
  "ex_two_years = ex_table @ [ex_cell 2021 ''A'' ''X'' ''Bronze'' 40, ex_cell 2021 ''A'' ''X'' ''Silver'' 60]"

definition ex_ci2 :: "target_row list" where
  "ex_ci2 = ex_ci @ [ex_target 2021 ''X'' ''A'' 120]"

definition ex_cm2 :: "target_row list" where
  "ex_cm2 = ex_cm @ [ex_target 2021 ''Bronze'' ''A'' 30, ex_target 2021 ''Silver'' ''A'' 90]"

definition ex_orphan :: "cell list" where
  "ex_orphan = [ex_cell 2020 ''A'' ''W'' ''Bronze'' 40, ex_cell 2020 ''A'' ''X'' ''Bronze'' 500]"

text \<open>
  A table of one county with two insurers and two metal tiers, and control totals that
  do not agree with it.
\<close>

definition cx_table :: "cell list" where
  "cx_table = [ex_cell 2020 ''A'' ''X'' ''Bronze'' 93, ex_cell 2020 ''A'' ''X'' ''Silver'' 1301,
               ex_cell 2020 ''A'' ''Y'' ''Bronze'' 407]"

definition cx_ci :: "target_row list" where
  "cx_ci = [ex_target 2020 ''X'' ''A'' 2400, ex_target 2020 ''Y'' ''A'' 700]"

definition cx_cm :: "target_row list" where
  "cx_cm = [ex_target 2020 ''Bronze'' ''A'' 500, ex_target 2020 ''Silver'' ''A'' 1300]"

definition cx_table1 :: "cell list" where
  "cx_table1 = [ex_cell 2020 ''A'' ''X'' ''Bronze'' (111600 / 1199),
                ex_cell 2020 ''A'' ''X'' ''Silver'' 1300,
                ex_cell 2020 ''A'' ''Y'' ''Bronze'' (487900 / 1199)]"

definition cx_table2 :: "cell list" where
  "cx_table2 = [ex_cell 2020 ''A'' ''X'' ''Bronze'' (2678400 / 28741),
                ex_cell 2020 ''A'' ''X'' ''Silver'' 1300,
                ex_cell 2020 ''A'' ''Y'' ''Bronze'' (11692100 / 28741)]"

text \<open>An input whose insurer control total is negative.\<close>

definition neg_alloc :: "cell list" where
  "neg_alloc = [ex_cell 2020 ''A'' ''X'' ''Bronze'' 10]"

definition neg_raw_ci :: "raw_target list" where
  "neg_raw_ci = [\<lparr>raw_year = 2020, raw_key = ''X'', raw_county = ''A'', raw_enrollees = Some (- 5)\<rparr>]"

definition neg_raw_cm :: "raw_target list" where
  "neg_raw_cm = [\<lparr>raw_year = 2020, raw_key = ''Bronze'', raw_county = ''A'', raw_enrollees = Some 7\<rparr>]"

definition neg_zero :: "cell list" where
  "neg_zero = [ex_cell 2020 ''A'' ''X'' ''Bronze'' 0]"

text \<open>A crosswalk that lists Los Angeles under both of its names in one rating area.\<close>

definition la_raw :: "(string option \<times> int option) list" where
  "la_raw = [(Some ''LA COUNTY'', Some 15), (Some ''LOS ANGELES'', Some 15)]"

definition la_base :: "base_row list" where
  "la_base = [\<lparr>b_year = 2020, b_rating_area = 15, b_insurer = ''X'', b_plan = ''HMO'',
               b_metal_tier = ''Bronze'', enrollment = 1000\<rparr>]"

text \<open>A crosswalk with a row whose county name is missing.\<close>

definition blank_raw :: "(string option \<times> int option) list" where
  "blank_raw = [(Some ''ALPINE'', Some 1), (None, Some 1)]"

text \<open>A crosswalk of two counties in one rating area and one county in another.\<close>

definition ok_raw :: "(string option \<times> int option) list" where
  "ok_raw = [(Some ''ALPINE'', Some 1), (Some ''AMADOR'', Some 1), (Some ''KERN'', Some 14)]"

definition ok_base :: base_row where
  "ok_base = \<lparr>b_year = 2020, b_rating_area = 1, b_insurer = ''X'', b_plan = ''HMO'',
              b_metal_tier = ''Bronze'', enrollment = 1000\<rparr>"

section \<open>The scaling step in float64 arithmetic\<close>

text \<open>
  The definitions above compute with real numbers. The source computes in IEEE binary64,
  where every sum, product and quotient is the exact result rounded to the nearest
  number with a 53-bit significand, ties to the even significand. \<open>fl64\<close> is that
  rounding for results in the normal range (no overflow, no subnormal numbers):
  \<open>e\<close> is the binary exponent of \<open>x\<close> and \<open>2 powi (e - 52)\<close> the spacing of the
  representable numbers around \<open>x\<close>.
\<close>

definition round_half_even :: "real \<Rightarrow> int" where
  "round_half_even x =
     (let f = \<lfloor>x\<rfloor>; r = x - of_int f
      in if r < 1 / 2 then f else if 1 / 2 < r then f + 1 else if even f then f else f + 1)"

definition fl64_at :: "int \<Rightarrow> real \<Rightarrow> real" where
  "fl64_at e x = of_int (round_half_even (x / 2 powi (e - 52))) * 2 powi (e - 52)"

definition fl64 :: "real \<Rightarrow> real" where
  "fl64 x = (if x = 0 then 0 else fl64_at \<lfloor>Transcendental.log 2 \<bar>x\<bar>\<rfloor> x)"

text \<open>
  The scaling step with every operation rounded: the group sums add the estimates of a
  group one after the other, the factor is the rounded quotient, the new estimate the
  rounded product, and the literal \<^verbatim>\<open>1e-10\<close> is the binary64 number nearest to it.
  (A library that adds the values of a group in another order or with a compensation
  term returns the same sum for a group of at most two rows.)
\<close>

definition eps64 :: real where
  "eps64 = fl64 eps"

definition sum64 :: "real list \<Rightarrow> real" where
  "sum64 xs = foldl (\<lambda>a x. fl64 (a + x)) 0 xs"

definition group_sum64 :: "(cell \<Rightarrow> 'k) \<Rightarrow> cell list \<Rightarrow> 'k \<Rightarrow> real" where
  "group_sum64 key d k = sum64 (map enrollment_est (filter (\<lambda>c. key c = k) d))"

definition scale_step64 :: "(cell \<Rightarrow> 'k) \<Rightarrow> real list \<Rightarrow> cell list \<Rightarrow> cell list" where
  "scale_step64 key targets d =
     (let group_sums = map (\<lambda>c. group_sum64 key d (key c)) d;
          factors = map (\<lambda>(t, s). if s > eps64 then fl64 (t / s) else 0) (zip targets group_sums)
      in assign_est d (map (\<lambda>(e, f). fl64 (e * f)) (zip (estimates d) factors)))"

definition step_A64 :: "real list \<Rightarrow> cell list \<Rightarrow> cell list" where
  "step_A64 ic_targets d = scale_step64 ic_key ic_targets d"

definition step_B64 :: "real list \<Rightarrow> cell list \<Rightarrow> cell list" where
  "step_B64 mc_targets d = scale_step64 mc_key mc_targets d"

text \<open>
  Two tables of two cells in one county. In \<open>fa_table\<close> the cells share the insurer, in
  \<open>fb_table\<close> the metal tier.
\<close>

definition fa_table :: "cell list" where
  "fa_table = [ex_cell 2020 ''A'' ''X'' ''Bronze'' 2, ex_cell 2020 ''A'' ''X'' ''Silver'' 3]"

definition fa_ic :: margin where
  "fa_ic = [((''X'', ''A''), 7)]"

definition fb_table :: "cell list" where
  "fb_table = [ex_cell 2020 ''A'' ''X'' ''Bronze'' 1, ex_cell 2020 ''A'' ''Y'' ''Bronze'' 5]"

definition fb_ic :: margin where
  "fb_ic = [((''X'', ''A''), 1), ((''Y'', ''A''), 5)]"

definition fb_mc :: margin where
  "fb_mc = [((''Bronze'', ''A''), 7)]"

text \<open>The weight of a row of a rating area with \<open>n\<close> named rows, as binary64 computes it.\<close>

definition weight64 :: "nat \<Rightarrow> real" where
  "weight64 n = fl64 (1 / real n)"

section \<open>Properties of one scaling step\<close>

lemma scale_step_map:
  "scale_step key (map (\<lambda>c. T (key c)) d) d =
     map (\<lambda>c. c\<lparr>enrollment_est := enrollment_est c *
            (if group_sum key d (key c) > eps then T (key c) / group_sum key d (key c) else 0)\<rparr>) d"
  by (rule nth_equalityI)
     (simp_all add: scale_step_def assign_est_def where_factors_def transform_sum_def
        estimates_def Let_def)

lemma ic_key_est [simp]: "ic_key (c\<lparr>enrollment_est := v\<rparr>) = ic_key c"
  by (simp add: ic_key_def)

lemma mc_key_est [simp]: "mc_key (c\<lparr>enrollment_est := v\<rparr>) = mc_key c"
  by (simp add: mc_key_def)

lemma scale_step_nth:
  assumes "i < length d"
  shows "enrollment_est (scale_step key (map (\<lambda>c. T (key c)) d) d ! i) =
           enrollment_est (d ! i) *
             (if group_sum key d (key (d ! i)) > eps
              then T (key (d ! i)) / group_sum key d (key (d ! i)) else 0)"
  using assms by (simp add: scale_step_map)

lemma scale_step_keys:
  assumes "\<And>c v. key (c\<lparr>enrollment_est := v\<rparr>) = key c"
  shows "map key (scale_step key (map (\<lambda>c. T (key c)) d) d) = map key d"
  by (simp add: scale_step_map assms comp_def)

lemma group_sum_scale_step:
  assumes kp: "\<And>c v. key (c\<lparr>enrollment_est := v\<rparr>) = key c"
  shows "group_sum key (scale_step key (map (\<lambda>c. T (key c)) d) d) k =
           (if group_sum key d k > eps then T k else 0)"
proof -
  let ?F = "if group_sum key d k > eps then T k / group_sum key d k else 0"
  have "group_sum key (scale_step key (map (\<lambda>c. T (key c)) d) d) k =
          sum_list (map (\<lambda>c. enrollment_est c * ?F) (filter (\<lambda>c. key c = k) d))"
    unfolding scale_step_map group_sum_def filter_map map_map comp_def kp
    by (rule arg_cong [where f = sum_list], rule map_cong) auto
  also have "\<dots> = group_sum key d k * ?F"
    by (simp add: group_sum_def sum_list_mult_const)
  also have "\<dots> = (if group_sum key d k > eps then T k else 0)"
    by (auto simp: eps_def)
  finally show ?thesis .
qed

lemmas ex_defs = ex_cell_def ex_target_def ex_table_def ex_ic_def ex_mc_def
lemmas step_defs = step_A_def step_B_def scale_step_def transform_sum_def group_sum_def
  where_factors_def assign_est_def estimates_def row_targets_def lookup_get_def ic_key_def
  mc_key_def eps_def

text \<open>
  C1, amended. In Step A and in Step B alike, a cell whose group sums to more than
  \<open>eps\<close> is multiplied by the group's target over the group's sum, so that, the
  arithmetic being exact, the group then sums to its target (in binary64 the new sum can
  miss the target by rounding, as the section on rounding shows); a cell whose group
  sums to \<open>eps\<close> or less is set to 0.
\<close>

theorem scaling_step_groups:
  assumes "i < length d"
  shows "(eps < group_sum ic_key d (ic_key (d ! i)) \<longrightarrow>
            enrollment_est (step_A (row_targets ic_key ic d) d ! i) =
              enrollment_est (d ! i) *
                (lookup_get ic (ic_key (d ! i)) / group_sum ic_key d (ic_key (d ! i))) \<and>
            group_sum ic_key (step_A (row_targets ic_key ic d) d) (ic_key (d ! i)) =
              lookup_get ic (ic_key (d ! i))) \<and>
         (\<not> eps < group_sum ic_key d (ic_key (d ! i)) \<longrightarrow>
            enrollment_est (step_A (row_targets ic_key ic d) d ! i) = 0) \<and>
         (eps < group_sum mc_key d (mc_key (d ! i)) \<longrightarrow>
            enrollment_est (step_B (row_targets mc_key mc d) d ! i) =
              enrollment_est (d ! i) *
                (lookup_get mc (mc_key (d ! i)) / group_sum mc_key d (mc_key (d ! i))) \<and>
            group_sum mc_key (step_B (row_targets mc_key mc d) d) (mc_key (d ! i)) =
              lookup_get mc (mc_key (d ! i))) \<and>
         (\<not> eps < group_sum mc_key d (mc_key (d ! i)) \<longrightarrow>
            enrollment_est (step_B (row_targets mc_key mc d) d ! i) = 0)"
  using assms
  by (simp add: step_A_def step_B_def row_targets_def scale_step_nth group_sum_scale_step)

theorem scaling_step_groups_witness:
  "enrollment_est (step_A (row_targets ic_key ex_ic ex_table) ex_table ! 0) = 300 \<and>
   group_sum ic_key (step_A (row_targets ic_key ex_ic ex_table) ex_table) (''X'', ''A'') = 300 \<and>
   enrollment_est (step_B (row_targets mc_key ex_mc ex_table) ex_table ! 0) = 350 \<and>
   group_sum mc_key (step_B (row_targets mc_key ex_mc ex_table) ex_table) (''Bronze'', ''A'') = 350 \<and>
   enrollment_est (step_A (row_targets ic_key ex_ic ex_table) ex_table ! 2) = 0 \<and>
   enrollment_est (step_B (row_targets mc_key ex_mc ex_table) ex_table ! 2) = 0"
proof -
  have len: "0 < length ex_table" "2 < length ex_table"
    by (simp_all add: ex_table_def)
  have big: "eps < group_sum ic_key ex_table (ic_key (ex_table ! 0))"
            "eps < group_sum mc_key ex_table (mc_key (ex_table ! 0))"
    by (simp_all add: ex_defs group_sum_def ic_key_def mc_key_def eps_def)
  have small: "\<not> eps < group_sum ic_key ex_table (ic_key (ex_table ! 2))"
              "\<not> eps < group_sum mc_key ex_table (mc_key (ex_table ! 2))"
    by (simp_all add: ex_defs group_sum_def ic_key_def mc_key_def eps_def)
  have k: "ic_key (ex_table ! 0) = (''X'', ''A'')" "mc_key (ex_table ! 0) = (''Bronze'', ''A'')"
    by (simp_all add: ex_defs ic_key_def mc_key_def)
  have v: "enrollment_est (ex_table ! 0) * (lookup_get ex_ic (''X'', ''A'') / group_sum ic_key ex_table (''X'', ''A'')) = 300"
          "lookup_get ex_ic (''X'', ''A'') = 300"
          "enrollment_est (ex_table ! 0) * (lookup_get ex_mc (''Bronze'', ''A'') / group_sum mc_key ex_table (''Bronze'', ''A'')) = 350"
          "lookup_get ex_mc (''Bronze'', ''A'') = 350"
    by (simp_all add: ex_defs group_sum_def ic_key_def mc_key_def lookup_get_def)
  show ?thesis
    using scaling_step_groups [OF len(1), of ex_ic ex_mc]
          scaling_step_groups [OF len(2), of ex_ic ex_mc] big small v
    by (simp add: k)
qed

section \<open>The convergence statistic\<close>

lemma max_change_set:
  assumes "length cur = length prev"
  shows "set (map (\<lambda>(p, c). \<bar>c - p\<bar> / p) (filter (\<lambda>(p, c). p > eps) (zip prev cur))) =
         {\<bar>cur ! i - prev ! i\<bar> / prev ! i | i. i < length prev \<and> eps < prev ! i}"
  using assms by (auto simp: set_zip image_iff)

lemma max_change_nonempty:
  assumes "length cur = length prev"
  shows "filter (\<lambda>(p, c). p > eps) (zip prev cur) \<noteq> [] \<longleftrightarrow> (\<exists>i<length prev. eps < prev ! i)"
  using assms by (auto simp: filter_empty_conv set_zip)

lemma max_change_Max:
  assumes "length cur = length prev" "\<exists>i<length prev. eps < prev ! i"
  shows "max_change prev cur =
           Max {\<bar>cur ! i - prev ! i\<bar> / prev ! i | i. i < length prev \<and> eps < prev ! i}"
  using assms(2)
  unfolding max_change_def Let_def max_change_nonempty [OF assms(1)]
    max_change_set [OF assms(1), symmetric]
  by auto

lemma max_change_zero:
  assumes "length cur = length prev" "\<forall>i<length prev. \<not> eps < prev ! i"
  shows "max_change prev cur = 0"
  using assms(2)
  unfolding max_change_def Let_def max_change_nonempty [OF assms(1)]
  by auto

lemma scale_step_length:
  "length ts = length d \<Longrightarrow> length (scale_step key ts d) = length d"
  by (simp add: scale_step_def assign_est_def where_factors_def transform_sum_def
      estimates_def Let_def)

lemma scale_step_est_nth:
  assumes "length ts = length d" "i < length d"
  shows "enrollment_est (scale_step key ts d ! i) =
           enrollment_est (d ! i) *
             (if eps < group_sum key d (key (d ! i))
              then ts ! i / group_sum key d (key (d ! i)) else 0)"
  using assms
  by (simp add: scale_step_def assign_est_def where_factors_def transform_sum_def
      estimates_def Let_def)

lemma scale_step_fields:
  assumes "length ts = length d" "\<And>c v. f (c\<lparr>enrollment_est := v\<rparr>) = f c"
  shows "map f (scale_step key ts d) = map f d"
  using assms(1)
  by (intro nth_equalityI)
     (simp_all add: scale_step_def assign_est_def where_factors_def transform_sum_def
        estimates_def Let_def assms(2))

lemma ipf_pass_length:
  "length ict = length d \<Longrightarrow> length mct = length d \<Longrightarrow> length (ipf_pass ict mct d) = length d"
  by (simp add: ipf_pass_def step_A_def step_B_def scale_step_length)

text \<open>
  C2. The change recorded for a pass is \<open>max_change\<close> of the estimates at the start of
  the pass and the estimates after Step B of the same pass. It is the largest
  \<open>\<bar>current - prior\<bar> / prior\<close> over the cells whose prior estimate exceeds \<open>eps\<close>;
  the other cells are left out; and when no prior estimate exceeds \<open>eps\<close> it is 0, so
  that with a positive tolerance the pass declares convergence.
\<close>

theorem convergence_statistic:
  assumes "length ict = length (df st)" and "length mct = length (df st)"
  shows "final_max_change (ipf_loop ict mct tol yr [i] st) =
           Some (max_change (estimates (df st)) (estimates (step_B mct (step_A ict (df st))))) \<and>
         ((\<exists>j<length (df st). eps < enrollment_est (df st ! j)) \<longrightarrow>
            max_change (estimates (df st)) (estimates (step_B mct (step_A ict (df st)))) =
              Max {\<bar>enrollment_est (step_B mct (step_A ict (df st)) ! j) - enrollment_est (df st ! j)\<bar>
                     / enrollment_est (df st ! j) | j.
                   j < length (df st) \<and> eps < enrollment_est (df st ! j)}) \<and>
         ((\<forall>j<length (df st). \<not> eps < enrollment_est (df st ! j)) \<longrightarrow>
            max_change (estimates (df st)) (estimates (step_B mct (step_A ict (df st)))) = 0 \<and>
            (0 < tol \<longrightarrow> converged (ipf_loop ict mct tol yr (i # rest) st)))"
proof -
  let ?prev = "estimates (df st)"
  let ?d2 = "step_B mct (step_A ict (df st))"
  let ?cur = "estimates ?d2"
  have len2: "length ?d2 = length (df st)"
    using assms ipf_pass_length [of ict "df st" mct] by (simp add: ipf_pass_def)
  then have len: "length ?cur = length ?prev"
    by (simp add: estimates_def)
  have p: "\<And>j. j < length (df st) \<Longrightarrow> ?prev ! j = enrollment_est (df st ! j)"
    by (simp add: estimates_def)
  have c: "\<And>j. j < length (df st) \<Longrightarrow> ?cur ! j = enrollment_est (?d2 ! j)"
    using len2 by (simp add: estimates_def)
  have lp: "length ?prev = length (df st)"
    by (simp add: estimates_def)
  have set_eq: "{\<bar>?cur ! j - ?prev ! j\<bar> / ?prev ! j | j. j < length ?prev \<and> eps < ?prev ! j} =
                {\<bar>enrollment_est (?d2 ! j) - enrollment_est (df st ! j)\<bar> / enrollment_est (df st ! j) | j.
                   j < length (df st) \<and> eps < enrollment_est (df st ! j)}"
    unfolding lp using p c by (intro Collect_cong) (metis (no_types, lifting))
  have one: "final_max_change (ipf_loop ict mct tol yr [i] st) = Some (max_change ?prev ?cur)"
    by (simp add: Let_def)
  have two: "(\<exists>j<length (df st). eps < enrollment_est (df st ! j)) \<longrightarrow>
      max_change ?prev ?cur =
        Max {\<bar>enrollment_est (?d2 ! j) - enrollment_est (df st ! j)\<bar> / enrollment_est (df st ! j) | j.
               j < length (df st) \<and> eps < enrollment_est (df st ! j)}"
  proof
    assume "\<exists>j<length (df st). eps < enrollment_est (df st ! j)"
    then have "\<exists>j<length ?prev. eps < ?prev ! j"
      using p lp by auto
    from max_change_Max [OF len this] show "max_change ?prev ?cur =
        Max {\<bar>enrollment_est (?d2 ! j) - enrollment_est (df st ! j)\<bar> / enrollment_est (df st ! j) | j.
               j < length (df st) \<and> eps < enrollment_est (df st ! j)}"
      unfolding set_eq .
  qed
  have three: "(\<forall>j<length (df st). \<not> eps < enrollment_est (df st ! j)) \<longrightarrow>
      max_change ?prev ?cur = 0 \<and> (0 < tol \<longrightarrow> converged (ipf_loop ict mct tol yr (i # rest) st))"
  proof
    assume "\<forall>j<length (df st). \<not> eps < enrollment_est (df st ! j)"
    then have "\<forall>j<length ?prev. \<not> eps < ?prev ! j"
      using p lp by auto
    from max_change_zero [OF len this] show
      "max_change ?prev ?cur = 0 \<and> (0 < tol \<longrightarrow> converged (ipf_loop ict mct tol yr (i # rest) st))"
      by (simp add: Let_def)
  qed
  from one two three show ?thesis by blast
qed

theorem convergence_statistic_witness:
  "max_change (estimates ex_table) (estimates (step_B ex_mct (step_A ex_ict ex_table))) =
     Max {\<bar>enrollment_est (step_B ex_mct (step_A ex_ict ex_table) ! j) - enrollment_est (ex_table ! j)\<bar>
            / enrollment_est (ex_table ! j) | j.
          j < length ex_table \<and> eps < enrollment_est (ex_table ! j)} \<and>
   final_max_change (ipf_loop ex_ict ex_mct (1 / 1000) 2020 [1] (ex_state ex_table)) =
     Some (max_change (estimates ex_table) (estimates (step_B ex_mct (step_A ex_ict ex_table)))) \<and>
   max_change (estimates ex_zero) (estimates (step_B [350, 450] (step_A [300, 500] ex_zero))) = 0 \<and>
   converged (ipf_loop [300, 500] [350, 450] (1 / 1000) 2020 [1, 2] (ex_state ex_zero))"
proof -
  have l1: "length ex_ict = length (df (ex_state ex_table))"
           "length ex_mct = length (df (ex_state ex_table))"
    by (simp_all add: ex_ict_def ex_mct_def row_targets_def ex_state_def)
  have l2: "length [300, 500::real] = length (df (ex_state ex_zero))"
           "length [350, 450::real] = length (df (ex_state ex_zero))"
    by (simp_all add: ex_state_def ex_zero_def)
  have h1: "\<exists>j<length (df (ex_state ex_table)). eps < enrollment_est (df (ex_state ex_table) ! j)"
    by (rule exI [of _ 0]) (simp add: ex_state_def ex_table_def ex_cell_def eps_def)
  have h2: "\<forall>j<length (df (ex_state ex_zero)). \<not> eps < enrollment_est (df (ex_state ex_zero) ! j)"
    by (simp add: ex_state_def ex_zero_def ex_cell_def eps_def less_Suc_eq)
  have d: "df (ex_state ex_table) = ex_table" "df (ex_state ex_zero) = ex_zero"
    by (simp_all add: ex_state_def)
  show ?thesis
    using convergence_statistic [OF l1, of "1 / 1000" 2020 1 "[]"]
          convergence_statistic [OF l2, of "1 / 1000" 2020 1 "[2]"] h1 h2
    unfolding d by simp
qed

section \<open>Group totals and the margins after a step\<close>

lemma sum_list_delta:
  assumes "distinct ks" "a \<in> set ks"
  shows "sum_list (map (\<lambda>k. if a = k then (v::real) else 0) ks) = v"
  using assms by (simp add: sum_list_distinct_conv_sum_set)

lemma total_by_groups_gen:
  assumes "distinct ks" "key ` set d \<subseteq> set ks"
  shows "sum_list (map enrollment_est d) = sum_list (map (group_sum key d) ks)"
  using assms(2)
proof (induction d)
  case Nil
  then show ?case by (simp add: group_sum_def)
next
  case (Cons c d)
  have "sum_list (map (group_sum key (c # d)) ks) =
          sum_list (map (\<lambda>k. (if key c = k then enrollment_est c else 0) + group_sum key d k) ks)"
    by (rule arg_cong [where f = sum_list], rule map_cong) (auto simp: group_sum_def)
  also have "\<dots> = sum_list (map (\<lambda>k. if key c = k then enrollment_est c else 0) ks) +
                    sum_list (map (group_sum key d) ks)"
    by (simp add: sum_list_addf)
  also have "\<dots> = enrollment_est c + sum_list (map enrollment_est d)"
    using Cons assms(1) by (simp add: sum_list_delta)
  finally show ?case by simp
qed

lemma total_by_groups:
  "sum_list (map enrollment_est d) = sum_list (map (group_sum key d) (remdups (map key d)))"
  by (rule total_by_groups_gen) auto

lemma ipf_pass_fields:
  assumes "length ict = length d" "length mct = length d"
    and "\<And>c v. f (c\<lparr>enrollment_est := v\<rparr>) = f c"
  shows "map f (ipf_pass ict mct d) = map f d"
  using assms
  by (simp add: ipf_pass_def step_A_def step_B_def scale_step_fields scale_step_length)

lemma ipf_iterate_length:
  assumes "length ict = length d" "length mct = length d"
  shows "length (ipf_iterate ict mct n d) = length d"
  using assms
  by (induction n) (simp_all add: ipf_iterate_def ipf_pass_length)

lemma ipf_iterate_fields:
  assumes "length ict = length d" "length mct = length d"
    and "\<And>c v. f (c\<lparr>enrollment_est := v\<rparr>) = f c"
  shows "map f (ipf_iterate ict mct n d) = map f d"
proof (induction n)
  case 0
  show ?case by (simp add: ipf_iterate_def)
next
  case (Suc n)
  have "map f (ipf_iterate ict mct (Suc n) d) = map f (ipf_pass ict mct (ipf_iterate ict mct n d))"
    by (simp add: ipf_iterate_def)
  also have "\<dots> = map f (ipf_iterate ict mct n d)"
    using assms by (intro ipf_pass_fields) (simp_all add: ipf_iterate_length)
  finally show ?case using Suc by simp
qed

lemma ipf_iterate_Suc:
  "ipf_iterate ict mct (Suc n) d = step_B mct (step_A ict (ipf_iterate ict mct n d))"
  by (simp add: ipf_iterate_def ipf_pass_def)

lemma row_targets_cong:
  "map key d = map key d' \<Longrightarrow> row_targets key m d = row_targets key m d'"
proof -
  assume "map key d = map key d'"
  then have "map (lookup_get m) (map key d) = map (lookup_get m) (map key d')"
    by simp
  then show ?thesis
    by (simp add: row_targets_def comp_def)
qed

lemmas group_sum_mc = group_sum_scale_step [of mc_key, OF mc_key_est]

lemma group_sum_mc_fun:
  "group_sum mc_key (scale_step mc_key (map (\<lambda>c. T (mc_key c)) d) d) =
     (\<lambda>k. if eps < group_sum mc_key d k then T k else 0)"
  by (rule ext) (rule group_sum_mc)

lemma step_B_totals:
  "sum_list (estimates (step_B (row_targets mc_key mc pre) pre)) =
     sum_list (map (lookup_get mc)
       (filter (\<lambda>k. eps < group_sum mc_key pre k) (remdups (map mc_key pre))))"
proof -
  let ?post = "step_B (row_targets mc_key mc pre) pre"
  have keys: "map mc_key ?post = map mc_key pre"
    unfolding step_B_def row_targets_def by (rule scale_step_keys) simp
  have "sum_list (estimates ?post) =
          sum_list (map (group_sum mc_key ?post) (remdups (map mc_key ?post)))"
    unfolding estimates_def by (rule total_by_groups)
  also have "\<dots> = sum_list (map (\<lambda>k. if eps < group_sum mc_key pre k then lookup_get mc k else 0)
                        (remdups (map mc_key pre)))"
    unfolding keys
    by (simp add: step_B_def row_targets_def group_sum_mc_fun)
  also have "\<dots> = sum_list (map (lookup_get mc)
       (filter (\<lambda>k. eps < group_sum mc_key pre k) (remdups (map mc_key pre))))"
    by (simp add: sum_list_map_filter')
  finally show ?thesis .
qed

text \<open>
  C10, amended. With exact arithmetic, after Step B of pass \<open>n + 1\<close> every
  (metal tier, county) group whose sum just before Step B exceeded \<open>eps\<close> sums to its
  MC target, and the total of all estimates is the sum of the MC targets of those groups
  (in binary64 both hold only up to rounding, as the section on rounding shows).
\<close>

theorem step_B_margin_exact:
  fixes tbl :: "cell list" and ic mc :: margin and n :: nat
  defines "ict \<equiv> row_targets ic_key ic tbl"
    and "mct \<equiv> row_targets mc_key mc tbl"
  defines "pre \<equiv> step_A ict (ipf_iterate ict mct n tbl)"
  shows "(\<forall>k\<in>set (map mc_key tbl). eps < group_sum mc_key pre k \<longrightarrow>
            group_sum mc_key (ipf_iterate ict mct (Suc n) tbl) k = lookup_get mc k) \<and>
         sum_list (estimates (ipf_iterate ict mct (Suc n) tbl)) =
           sum_list (map (lookup_get mc)
             (filter (\<lambda>k. eps < group_sum mc_key pre k) (remdups (map mc_key tbl))))"
proof -
  have len: "length ict = length tbl" "length mct = length tbl"
    by (simp_all add: ict_def mct_def row_targets_def)
  have len_it: "length (ipf_iterate ict mct n tbl) = length tbl"
    using len by (rule ipf_iterate_length)
  have "map mc_key pre = map mc_key (ipf_iterate ict mct n tbl)"
    unfolding pre_def step_A_def using len len_it by (intro scale_step_fields) simp_all
  also have "\<dots> = map mc_key tbl"
    using len by (intro ipf_iterate_fields) simp_all
  finally have keys: "map mc_key pre = map mc_key tbl" .
  then have mct: "mct = row_targets mc_key mc pre"
    unfolding mct_def by (intro row_targets_cong) simp
  have post: "ipf_iterate ict mct (Suc n) tbl = step_B (row_targets mc_key mc pre) pre"
    unfolding ipf_iterate_Suc pre_def [symmetric] mct [symmetric] ..
  have "group_sum mc_key (step_B (row_targets mc_key mc pre) pre) k = lookup_get mc k"
    if "eps < group_sum mc_key pre k" for k
    using that by (simp add: step_B_def row_targets_def group_sum_mc)
  moreover have "sum_list (estimates (step_B (row_targets mc_key mc pre) pre)) =
      sum_list (map (lookup_get mc)
        (filter (\<lambda>k. eps < group_sum mc_key pre k) (remdups (map mc_key tbl))))"
    unfolding step_B_totals keys ..
  ultimately show ?thesis
    unfolding post by blast
qed

theorem step_B_margin_exact_witness:
  "group_sum mc_key (ipf_iterate ex_ict ex_mct (Suc 0) ex_table) (''Bronze'', ''A'') = 350 \<and>
   sum_list (estimates (ipf_iterate ex_ict ex_mct (Suc 0) ex_table)) = 800"
proof -
  have pre: "map enrollment_est (step_A ex_ict (ipf_iterate ex_ict ex_mct 0 ex_table)) = [300, 500, 0]"
    by (simp add: ipf_iterate_def ex_ict_def ex_defs step_defs)
  have pre_keys: "map mc_key (step_A ex_ict (ipf_iterate ex_ict ex_mct 0 ex_table)) =
                    [(''Bronze'', ''A''), (''Bronze'', ''B''), (''Silver'', ''A'')]"
    by (simp add: ipf_iterate_def ex_ict_def ex_defs step_defs)
  have gs: "group_sum mc_key (step_A ex_ict (ipf_iterate ex_ict ex_mct 0 ex_table)) k =
              sum_list (map snd (filter (\<lambda>p. fst p = k)
                [((''Bronze'', ''A''), 300), ((''Bronze'', ''B''), 500), ((''Silver'', ''A''), 0)]))" for k
  proof -
    have "group_sum mc_key d k = sum_list (map snd (filter (\<lambda>p. fst p = k)
            (zip (map mc_key d) (map enrollment_est d))))" for d
      unfolding group_sum_def by (induction d) simp_all
    then show ?thesis
      by (simp add: pre pre_keys)
  qed
  have keys: "map mc_key ex_table = [(''Bronze'', ''A''), (''Bronze'', ''B''), (''Silver'', ''A'')]"
    by (simp add: ex_defs mc_key_def)
  have look: "lookup_get ex_mc (''Bronze'', ''A'') = 350" "lookup_get ex_mc (''Bronze'', ''B'') = 450"
    by (simp_all add: ex_mc_def lookup_get_def)
  show ?thesis
    using step_B_margin_exact [where tbl = ex_table and ic = ex_ic and mc = ex_mc and n = 0]
    unfolding ex_ict_def [symmetric] ex_mct_def [symmetric] gs keys
    by (simp add: look eps_def)
qed

section \<open>Non-negative estimates\<close>

lemma lookup_get_nonneg:
  assumes "nonneg_targets ts"
  shows "0 \<le> lookup_get (set_index ts) k"
proof (cases "map_of (set_index ts) k")
  case None
  then show ?thesis by (simp add: lookup_get_def)
next
  case (Some v)
  then have "(k, v) \<in> set (set_index ts)"
    by (rule map_of_SomeD)
  then obtain t where "t \<in> set ts" "v = t_value t"
    by (auto simp: set_index_def)
  with assms have "0 \<le> v"
    by (simp add: nonneg_targets_def list_all_iff)
  with Some show ?thesis by (simp add: lookup_get_def)
qed

lemma row_targets_nonneg:
  assumes "nonneg_targets ts"
  shows "\<forall>x\<in>set (row_targets key (set_index (filter P ts)) d). 0 \<le> x"
proof -
  have "nonneg_targets (filter P ts)"
    using assms by (simp add: nonneg_targets_def list_all_iff)
  then show ?thesis
    by (auto simp: row_targets_def lookup_get_nonneg)
qed

lemma eps_pos: "0 < eps"
  by (simp add: eps_def)

lemma scale_step_nonneg:
  assumes len: "length ts = length d" and ts: "\<forall>x\<in>set ts. 0 \<le> x" and d: "nonneg d"
  shows "nonneg (scale_step key ts d)"
  unfolding nonneg_def list_all_length
proof (intro allI impI)
  fix i assume "i < length (scale_step key ts d)"
  then have i: "i < length d"
    using len by (simp add: scale_step_length)
  have e: "0 \<le> enrollment_est (d ! i)"
    using d i by (simp add: nonneg_def list_all_length)
  have t: "0 \<le> ts ! i"
    using ts i len by simp
  have "0 \<le> (if eps < group_sum key d (key (d ! i))
               then ts ! i / group_sum key d (key (d ! i)) else 0)"
    using t eps_pos by (auto intro!: divide_nonneg_pos)
  with e show "0 \<le> enrollment_est (scale_step key ts d ! i)"
    unfolding scale_step_est_nth [OF len i] by (rule mult_nonneg_nonneg)
qed

lemma ipf_iterate_nonneg:
  assumes "length ict = length d" "length mct = length d"
    and "\<forall>x\<in>set ict. 0 \<le> x" "\<forall>x\<in>set mct. 0 \<le> x" "nonneg d"
  shows "nonneg (ipf_iterate ict mct n d) \<and> nonneg (step_A ict (ipf_iterate ict mct n d))"
proof (induction n)
  case 0
  then show ?case
    using assms by (simp add: ipf_iterate_def step_A_def scale_step_nonneg)
next
  case (Suc n)
  have l: "length (ipf_iterate ict mct n d) = length d"
    using assms(1,2) by (rule ipf_iterate_length)
  have l': "length (ipf_iterate ict mct (Suc n) d) = length d"
    using assms(1,2) by (rule ipf_iterate_length)
  have "nonneg (ipf_iterate ict mct (Suc n) d)"
    unfolding ipf_iterate_Suc step_B_def
    using Suc assms l by (intro scale_step_nonneg) (simp_all add: step_A_def scale_step_length)
  moreover from this have "nonneg (step_A ict (ipf_iterate ict mct (Suc n) d))"
    unfolding step_A_def using assms l' by (intro scale_step_nonneg) simp_all
  ultimately show ?case by simp
qed

lemma ipf_loop_nonneg:
  assumes "length ict = length (df st)" "length mct = length (df st)"
    and "\<forall>x\<in>set ict. 0 \<le> x" "\<forall>x\<in>set mct. 0 \<le> x" "nonneg (df st)"
  shows "nonneg (df (ipf_loop ict mct tol yr is st))"
  using assms
proof (induction "is" arbitrary: st)
  case Nil
  then show ?case by simp
next
  case (Cons i rest)
  let ?d1 = "step_A ict (df st)"
  let ?d2 = "step_B mct ?d1"
  have l1: "length ?d1 = length (df st)"
    using Cons.prems by (simp add: step_A_def scale_step_length)
  have l2: "length ?d2 = length (df st)"
    using Cons.prems l1 by (simp add: step_B_def scale_step_length)
  have n1: "nonneg ?d1"
    unfolding step_A_def using Cons.prems by (intro scale_step_nonneg) simp_all
  have n2: "nonneg ?d2"
    unfolding step_B_def using Cons.prems n1 l1 by (intro scale_step_nonneg) simp_all
  let ?st' = "st\<lparr>df := ?d2,
      final_max_change := Some (max_change (estimates (df st)) (estimates ?d2)), iteration := i\<rparr>"
  have "nonneg (df (ipf_loop ict mct tol yr rest ?st'))"
    using Cons.prems l2 n2 by (intro Cons.IH) simp_all
  then show ?case
    using n2 by (simp add: Let_def)
qed

section \<open>The year loop in terms of the solve of each year\<close>

text \<open>
  The loop reads only \<open>df\<close> of the state it is given, and what it leaves in \<open>converged\<close>
  and \<open>final_max_change\<close> when it makes no pass; it appends to the log and does not touch
  the results.
\<close>

lemma ipf_loop_core:
  "df (ipf_loop ict mct tol yr is st) = df (ipf_loop ict mct tol yr is (loop_core st)) \<and>
   converged (ipf_loop ict mct tol yr is st) = converged (ipf_loop ict mct tol yr is (loop_core st)) \<and>
   final_max_change (ipf_loop ict mct tol yr is st) =
     final_max_change (ipf_loop ict mct tol yr is (loop_core st)) \<and>
   log (ipf_loop ict mct tol yr is st) = log st @ log (ipf_loop ict mct tol yr is (loop_core st)) \<and>
   results (ipf_loop ict mct tol yr is st) = results st"
proof (induction "is" arbitrary: st)
  case Nil
  show ?case by (simp add: loop_core_def)
next
  case (Cons i rest)
  let ?d2 = "step_B mct (step_A ict (df st))"
  let ?mc = "max_change (estimates (df st)) (estimates ?d2)"
  let ?st' = "st\<lparr>df := ?d2, final_max_change := Some ?mc, iteration := i\<rparr>"
  let ?ct' = "(loop_core st)\<lparr>df := ?d2, final_max_change := Some ?mc, iteration := i\<rparr>"
  have core: "loop_core ?ct' = loop_core ?st'"
    by (simp add: loop_core_def)
  show ?case
  proof (cases "?mc < tol")
    case True
    then show ?thesis
      by (simp add: Let_def loop_core_def)
  next
    case False
    have a: "ipf_loop ict mct tol yr (i # rest) st = ipf_loop ict mct tol yr rest ?st'"
      using False by (simp add: Let_def)
    have b: "ipf_loop ict mct tol yr (i # rest) (loop_core st) = ipf_loop ict mct tol yr rest ?ct'"
      using False by (simp add: Let_def loop_core_def)
    have lg: "log ?ct' = []" "log ?st' = log st" "results ?st' = results st"
      by (simp_all add: loop_core_def)
    show ?thesis
      unfolding a b
      using Cons.IH [of ?st'] Cons.IH [of ?ct']
      unfolding core lg by simp
  qed
qed

lemma year_body_empty:
  assumes "year_table alloc yr = []"
  shows "results (year_body alloc ci cm max_iter tol yr st) = results st"
    and "log (year_body alloc ci cm max_iter tol yr st) = log st"
  using assms by (simp_all add: year_body_def year_table_def)

lemma year_body_solve:
  assumes "year_table alloc yr \<noteq> []"
  shows "results (year_body alloc ci cm max_iter tol yr st) =
           results st @ [df (solve_partition alloc ci cm max_iter tol yr)]"
    and "log (year_body alloc ci cm max_iter tol yr st) =
           log st @ partition_log alloc ci cm max_iter tol yr"
proof -
  let ?ict = "year_ic_targets alloc ci yr" and ?mct = "year_mc_targets alloc cm yr"
  let ?s0 = "st\<lparr>df := year_table alloc yr, converged := False, final_max_change := None\<rparr>"
  let ?st1 = "ipf_loop ?ict ?mct tol yr [1..max_iter] ?s0"
  let ?sp = "solve_partition alloc ci cm max_iter tol yr"
  have core: "loop_core ?s0 = fresh_state (year_table alloc yr)"
    by (simp add: loop_core_def fresh_state_def)
  have eqs: "df ?st1 = df ?sp" "converged ?st1 = converged ?sp"
    "final_max_change ?st1 = final_max_change ?sp" "log ?st1 = log st @ log ?sp"
    "results ?st1 = results st"
    using ipf_loop_core [of ?ict ?mct tol yr "[1..max_iter]" ?s0]
    unfolding core solve_partition_def by simp_all
  have body: "year_body alloc ci cm max_iter tol yr st =
      (let st2 = (if \<not> converged ?st1
                  then ?st1\<lparr>log := log ?st1 @ [Not_converged yr max_iter (final_max_change ?st1)]\<rparr>
                  else ?st1)
       in st2\<lparr>results := results st2 @ [df st2]\<rparr>)"
    using assms
    by (simp add: year_body_def year_table_def year_ic_targets_def year_mc_targets_def Let_def)
  show "results (year_body alloc ci cm max_iter tol yr st) = results st @ [df ?sp]"
    unfolding body by (simp add: Let_def eqs)
  show "log (year_body alloc ci cm max_iter tol yr st) =
          log st @ partition_log alloc ci cm max_iter tol yr"
    unfolding body by (simp add: Let_def eqs partition_log_def)
qed

lemma run_years_solve:
  "results (run_years ys alloc ci cm max_iter tol st) =
     results st @ map (\<lambda>y. df (solve_partition alloc ci cm max_iter tol y))
                      (filter (\<lambda>y. year_table alloc y \<noteq> []) ys) \<and>
   log (run_years ys alloc ci cm max_iter tol st) =
     log st @ concat (map (partition_log alloc ci cm max_iter tol)
                      (filter (\<lambda>y. year_table alloc y \<noteq> []) ys))"
proof (induction ys arbitrary: st)
  case Nil
  show ?case by (simp add: run_years_def)
next
  case (Cons y ys)
  have step: "run_years (y # ys) alloc ci cm max_iter tol st =
                run_years ys alloc ci cm max_iter tol (year_body alloc ci cm max_iter tol y st)"
    by (simp add: run_years_def)
  show ?case
  proof (cases "year_table alloc y = []")
    case True
    then show ?thesis
      unfolding step using Cons.IH [of "year_body alloc ci cm max_iter tol y st"]
      by (simp add: year_body_empty)
  next
    case False
    then show ?thesis
      unfolding step using Cons.IH [of "year_body alloc ci cm max_iter tol y st"]
      by (simp add: year_body_solve)
  qed
qed

section \<open>The outcome of a year and of the run\<close>

lemma solve_partition_nonneg:
  assumes "nonneg alloc" "nonneg_targets ci" "nonneg_targets cm"
  shows "nonneg (df (solve_partition alloc ci cm max_iter tol y))"
  unfolding solve_partition_def
proof (rule ipf_loop_nonneg)
  show "length (year_ic_targets alloc ci y) = length (df (fresh_state (year_table alloc y)))"
    by (simp add: year_ic_targets_def row_targets_def fresh_state_def)
  show "length (year_mc_targets alloc cm y) = length (df (fresh_state (year_table alloc y)))"
    by (simp add: year_mc_targets_def row_targets_def fresh_state_def)
  show "\<forall>x\<in>set (year_ic_targets alloc ci y). 0 \<le> x"
    unfolding year_ic_targets_def using assms(2) by (rule row_targets_nonneg)
  show "\<forall>x\<in>set (year_mc_targets alloc cm y). 0 \<le> x"
    unfolding year_mc_targets_def using assms(3) by (rule row_targets_nonneg)
  show "nonneg (df (fresh_state (year_table alloc y)))"
    using assms(1) by (simp add: fresh_state_def year_table_def nonneg_def list_all_iff)
qed

lemma clip_lower_nonneg:
  "nonneg d \<Longrightarrow> map clip_lower d = d"
  by (induction d) (simp_all add: nonneg_def clip_lower_def max_def)

lemma nonneg_concat:
  "(\<forall>d\<in>set ds. nonneg d) \<Longrightarrow> nonneg (concat ds)"
  by (auto simp: nonneg_def list_all_iff)

text \<open>
  C3. When all initial estimates and all margin targets are at least 0, the estimates of
  every year are at least 0 after Step A and after Step B of every pass, and in the
  output of the run, which the final clip leaves as it is.
\<close>

theorem estimates_stay_nonnegative:
  assumes "nonneg alloc" and "nonneg_targets county_insurer" and "nonneg_targets county_metal"
  shows "nonneg (step_A (year_ic_targets alloc county_insurer yr)
                   (ipf_iterate (year_ic_targets alloc county_insurer yr)
                      (year_mc_targets alloc county_metal yr) n (year_table alloc yr))) \<and>
         nonneg (ipf_iterate (year_ic_targets alloc county_insurer yr)
                   (year_mc_targets alloc county_metal yr) (Suc n) (year_table alloc yr)) \<and>
         nonneg (df (solve_partition alloc county_insurer county_metal max_iter tol yr)) \<and>
         (case run_ipf alloc county_insurer county_metal max_iter tol of
            Inl e \<Rightarrow> alloc = []
          | Inr (out, lg) \<Rightarrow> nonneg out \<and>
              out = concat (results (run_years (sort (remdups (map year alloc))) alloc
                       county_insurer county_metal max_iter tol initial_state)))"
proof -
  let ?ict = "year_ic_targets alloc county_insurer yr"
  let ?mct = "year_mc_targets alloc county_metal yr"
  let ?d = "year_table alloc yr"
  have len: "length ?ict = length ?d" "length ?mct = length ?d"
    by (simp_all add: year_ic_targets_def year_mc_targets_def row_targets_def)
  have ts: "\<forall>x\<in>set ?ict. 0 \<le> x" "\<forall>x\<in>set ?mct. 0 \<le> x"
    unfolding year_ic_targets_def year_mc_targets_def
    by (rule row_targets_nonneg [OF assms(2)], rule row_targets_nonneg [OF assms(3)])
  have d: "nonneg ?d"
    using assms(1) by (simp add: year_table_def nonneg_def list_all_iff)
  have passes: "nonneg (step_A ?ict (ipf_iterate ?ict ?mct n ?d))"
    "nonneg (ipf_iterate ?ict ?mct (Suc n) ?d)"
    using ipf_iterate_nonneg [OF len ts d] by simp_all
  let ?ys = "sort (remdups (map year alloc))"
  let ?st = "run_years ?ys alloc county_insurer county_metal max_iter tol initial_state"
  have res: "results ?st =
      map (\<lambda>y. df (solve_partition alloc county_insurer county_metal max_iter tol y))
          (filter (\<lambda>y. year_table alloc y \<noteq> []) ?ys)"
    using run_years_solve [of ?ys alloc county_insurer county_metal max_iter tol initial_state]
    by (simp add: initial_state_def)
  have all: "\<forall>d\<in>set (results ?st). nonneg d"
    unfolding res using assms by (auto simp: solve_partition_nonneg)
  then have nn: "nonneg (concat (results ?st))"
    by (rule nonneg_concat)
  have empty: "alloc = []" if "results ?st = []"
  proof (rule ccontr)
    assume "alloc \<noteq> []"
    then obtain c where c: "c \<in> set alloc"
      by (cases alloc) auto
    then have "year c \<in> set ?ys" by simp
    moreover have "year_table alloc (year c) \<noteq> []"
      using c by (auto simp: year_table_def filter_empty_conv)
    ultimately have "filter (\<lambda>y. year_table alloc y \<noteq> []) ?ys \<noteq> []"
      by (auto simp: filter_empty_conv)
    with that show False
      unfolding res by simp
  qed
  have final: "(case run_ipf alloc county_insurer county_metal max_iter tol of
            Inl e \<Rightarrow> alloc = []
          | Inr (out, lg) \<Rightarrow> nonneg out \<and> out = concat (results ?st))"
    using nn empty by (simp add: run_ipf_def finish_def Let_def clip_lower_nonneg)
  from passes solve_partition_nonneg [OF assms] final show ?thesis
    by blast
qed

theorem estimates_stay_nonnegative_witness:
  "nonneg (step_A (year_ic_targets ex_table ex_ci 2020)
             (ipf_iterate (year_ic_targets ex_table ex_ci 2020)
                (year_mc_targets ex_table ex_cm 2020) 0 (year_table ex_table 2020))) \<and>
   nonneg (ipf_iterate (year_ic_targets ex_table ex_ci 2020)
             (year_mc_targets ex_table ex_cm 2020) (Suc 0) (year_table ex_table 2020)) \<and>
   nonneg (df (solve_partition ex_table ex_ci ex_cm 100 (1 / 1000) 2020)) \<and>
   (case run_ipf ex_table ex_ci ex_cm 100 (1 / 1000) of
      Inl e \<Rightarrow> ex_table = []
    | Inr (out, lg) \<Rightarrow> nonneg out \<and>
        out = concat (results (run_years (sort (remdups (map year ex_table))) ex_table
                 ex_ci ex_cm 100 (1 / 1000) initial_state)))"
proof -
  have "nonneg ex_table"
    by (simp add: nonneg_def ex_defs)
  moreover have "nonneg_targets ex_ci" "nonneg_targets ex_cm"
    by (simp_all add: nonneg_targets_def ex_ci_def ex_cm_def ex_target_def)
  ultimately show ?thesis
    by (rule estimates_stay_nonnegative)
qed

section \<open>The stopping rule of the iteration loop\<close>

lemma ipf_iterate_shift:
  "ipf_iterate ict mct n (ipf_pass ict mct d) = ipf_iterate ict mct (Suc n) d"
  by (simp add: ipf_iterate_def funpow_swap1)

lemma delta_shift:
  "1 \<le> k \<Longrightarrow> delta ict mct (ipf_pass ict mct d) k = delta ict mct d (Suc k)"
  by (cases k) (simp_all add: delta_def ipf_iterate_shift)

lemma delta_1:
  "delta ict mct d (Suc 0) = max_change (estimates d) (estimates (step_B mct (step_A ict d)))"
  by (simp add: delta_def ipf_iterate_def ipf_pass_def)

lemma ipf_loop_Cons:
  "ipf_loop ict mct tol yr (i # rest) st =
     (if delta ict mct (df st) (Suc 0) < tol
      then st\<lparr>df := ipf_pass ict mct (df st),
              final_max_change := Some (delta ict mct (df st) (Suc 0)), iteration := i,
              converged := True, log := log st @ [Converged yr i (delta ict mct (df st) (Suc 0))]\<rparr>
      else ipf_loop ict mct tol yr rest
             (st\<lparr>df := ipf_pass ict mct (df st),
                 final_max_change := Some (delta ict mct (df st) (Suc 0)), iteration := i\<rparr>))"
  by (simp add: Let_def delta_1 ipf_pass_def)

lemma ipf_loop_hit:
  assumes "1 \<le> k" "k \<le> length is" "delta ict mct (df st) k < tol"
    and "\<forall>j. 1 \<le> j \<and> j < k \<longrightarrow> \<not> delta ict mct (df st) j < tol"
  shows "ipf_loop ict mct tol yr is st =
           st\<lparr>df := ipf_iterate ict mct k (df st),
              final_max_change := Some (delta ict mct (df st) k), iteration := is ! (k - 1),
              converged := True, log := log st @ [Converged yr (is ! (k - 1)) (delta ict mct (df st) k)]\<rparr>"
  using assms
proof (induction "is" arbitrary: st k)
  case Nil
  then show ?case by simp
next
  case (Cons i rest)
  show ?case
  proof (cases "k = 1")
    case True
    with Cons.prems show ?thesis
      by (simp add: ipf_loop_Cons ipf_iterate_def del: ipf_loop.simps(2))
  next
    case False
    with Cons.prems obtain k' where k': "k = Suc k'" "1 \<le> k'"
      by (cases k) auto
    let ?st' = "st\<lparr>df := ipf_pass ict mct (df st),
                 final_max_change := Some (delta ict mct (df st) (Suc 0)), iteration := i\<rparr>"
    have no: "\<not> delta ict mct (df st) (Suc 0) < tol"
      using Cons.prems(4) k' by auto
    have d: "delta ict mct (df ?st') j = delta ict mct (df st) (Suc j)" if "1 \<le> j" for j
      using that by (simp add: delta_shift)
    have "ipf_loop ict mct tol yr rest ?st' =
            ?st'\<lparr>df := ipf_iterate ict mct k' (df ?st'),
              final_max_change := Some (delta ict mct (df ?st') k'), iteration := rest ! (k' - 1),
              converged := True,
              log := log ?st' @ [Converged yr (rest ! (k' - 1)) (delta ict mct (df ?st') k')]\<rparr>"
    proof (rule Cons.IH)
      show "1 \<le> k'" by (rule k')
      show "k' \<le> length rest" using Cons.prems(2) k' by simp
      show "delta ict mct (df ?st') k' < tol"
        using Cons.prems(3) k' d by simp
      show "\<forall>j. 1 \<le> j \<and> j < k' \<longrightarrow> \<not> delta ict mct (df ?st') j < tol"
        using Cons.prems(4) k' d by auto
    qed
    moreover have "rest ! (k' - 1) = (i # rest) ! (k - 1)"
      using k' by (cases k') simp_all
    ultimately show ?thesis
      using no k' d [of k'] by (simp add: ipf_loop_Cons ipf_iterate_shift del: ipf_loop.simps(2))
  qed
qed

lemma ipf_loop_miss:
  assumes "\<forall>j. 1 \<le> j \<and> j \<le> length is \<longrightarrow> \<not> delta ict mct (df st) j < tol" "is \<noteq> []"
  shows "ipf_loop ict mct tol yr is st =
           st\<lparr>df := ipf_iterate ict mct (length is) (df st),
              final_max_change := Some (delta ict mct (df st) (length is)), iteration := last is\<rparr>"
  using assms
proof (induction "is" arbitrary: st)
  case Nil
  then show ?case by simp
next
  case (Cons i rest)
  let ?st' = "st\<lparr>df := ipf_pass ict mct (df st),
               final_max_change := Some (delta ict mct (df st) (Suc 0)), iteration := i\<rparr>"
  have no: "\<not> delta ict mct (df st) (Suc 0) < tol"
    using Cons.prems(1) by auto
  have d: "delta ict mct (df ?st') j = delta ict mct (df st) (Suc j)" if "1 \<le> j" for j
    using that by (simp add: delta_shift)
  show ?case
  proof (cases "rest = []")
    case True
    with no show ?thesis
      by (simp add: ipf_loop_Cons ipf_iterate_def del: ipf_loop.simps(2))
  next
    case False
    have "ipf_loop ict mct tol yr rest ?st' =
            ?st'\<lparr>df := ipf_iterate ict mct (length rest) (df ?st'),
              final_max_change := Some (delta ict mct (df ?st') (length rest)), iteration := last rest\<rparr>"
    proof (rule Cons.IH)
      show "\<forall>j. 1 \<le> j \<and> j \<le> length rest \<longrightarrow> \<not> delta ict mct (df ?st') j < tol"
        using Cons.prems(1) d by auto
      show "rest \<noteq> []" by (rule False)
    qed
    moreover have "1 \<le> length rest"
      using False by (cases rest) simp_all
    ultimately show ?thesis
      using no False d [of "length rest"] by (simp add: ipf_loop_Cons ipf_iterate_shift del: ipf_loop.simps(2))
  qed
qed

lemma upto_1_nth: "1 \<le> k \<Longrightarrow> int k \<le> m \<Longrightarrow> [1..m] ! (k - 1) = int k"
  by (simp add: nth_upto)

lemma upto_1_last: "1 \<le> m \<Longrightarrow> last [1..m] = m"
  by (simp add: upto_rec2)

lemma solve_partition_hit:
  fixes alloc ci cm max_iter tol yr
  defines "D \<equiv> delta (year_ic_targets alloc ci yr) (year_mc_targets alloc cm yr) (year_table alloc yr)"
  assumes "1 \<le> k" "int k \<le> max_iter" "D k < tol" "\<forall>j. 1 \<le> j \<and> j < k \<longrightarrow> \<not> D j < tol"
  shows "solve_partition alloc ci cm max_iter tol yr =
           \<lparr>df = ipf_iterate (year_ic_targets alloc ci yr) (year_mc_targets alloc cm yr) k
                   (year_table alloc yr),
            converged = True, final_max_change = Some (D k), iteration = int k,
            results = [], log = [Converged yr (int k) (D k)]\<rparr>"
proof -
  have len: "k \<le> length [1..max_iter]"
    using assms(3) by simp
  have d: "df (fresh_state (year_table alloc yr)) = year_table alloc yr"
    by (simp add: fresh_state_def)
  show ?thesis
    unfolding solve_partition_def
    using ipf_loop_hit [of k "[1..max_iter]" "year_ic_targets alloc ci yr"
        "year_mc_targets alloc cm yr" "fresh_state (year_table alloc yr)" tol yr]
      assms(2-5) len
    unfolding d D_def by (simp add: upto_1_nth fresh_state_def)
qed

lemma solve_partition_miss:
  fixes alloc ci cm max_iter tol yr
  defines "D \<equiv> delta (year_ic_targets alloc ci yr) (year_mc_targets alloc cm yr) (year_table alloc yr)"
  assumes "\<forall>j. 1 \<le> j \<and> int j \<le> max_iter \<longrightarrow> \<not> D j < tol"
  shows "solve_partition alloc ci cm max_iter tol yr =
           \<lparr>df = ipf_iterate (year_ic_targets alloc ci yr) (year_mc_targets alloc cm yr)
                   (nat max_iter) (year_table alloc yr),
            converged = False,
            final_max_change = (if 1 \<le> max_iter then Some (D (nat max_iter)) else None),
            iteration = (if 1 \<le> max_iter then max_iter else 0),
            results = [], log = []\<rparr>"
proof (cases "1 \<le> max_iter")
  case True
  then have ne: "[1..max_iter] \<noteq> []"
    by simp
  have d: "df (fresh_state (year_table alloc yr)) = year_table alloc yr"
    by (simp add: fresh_state_def)
  have "\<forall>j. 1 \<le> j \<and> j \<le> length [1..max_iter] \<longrightarrow>
          \<not> delta (year_ic_targets alloc ci yr) (year_mc_targets alloc cm yr)
               (df (fresh_state (year_table alloc yr))) j < tol"
    using assms(2) unfolding d D_def by auto
  from ipf_loop_miss [OF this ne] True show ?thesis
    unfolding solve_partition_def d D_def
    by (simp add: fresh_state_def upto_1_last)
next
  case False
  then have "[1..max_iter] = []" "nat max_iter = 0"
    by simp_all
  with False show ?thesis
    by (simp add: solve_partition_def fresh_state_def ipf_iterate_def)
qed

lemma first_hit:
  fixes P :: "nat \<Rightarrow> bool"
  assumes "\<exists>k. 1 \<le> k \<and> int k \<le> m \<and> P k"
  obtains k where "1 \<le> k" "int k \<le> m" "P k" "\<forall>j. 1 \<le> j \<and> j < k \<longrightarrow> \<not> P j"
proof -
  let ?Q = "\<lambda>k. 1 \<le> k \<and> int k \<le> m \<and> P k"
  let ?k = "LEAST k. ?Q k"
  have q: "?Q ?k"
    using assms by (rule LeastI_ex)
  have "\<not> P j" if "1 \<le> j" "j < ?k" for j
  proof
    assume "P j"
    with that q have "?Q j" by auto
    then have "?k \<le> j" by (rule Least_le)
    with that show False by simp
  qed
  with q that show thesis by blast
qed

lemma solve_partition_df_iterate:
  "\<exists>k. df (solve_partition alloc ci cm max_iter tol yr) =
         ipf_iterate (year_ic_targets alloc ci yr) (year_mc_targets alloc cm yr) k (year_table alloc yr)"
proof (cases "\<exists>k. 1 \<le> k \<and> int k \<le> max_iter \<and>
    delta (year_ic_targets alloc ci yr) (year_mc_targets alloc cm yr) (year_table alloc yr) k < tol")
  case True
  then obtain k where "1 \<le> k" "int k \<le> max_iter"
    "delta (year_ic_targets alloc ci yr) (year_mc_targets alloc cm yr) (year_table alloc yr) k < tol"
    "\<forall>j. 1 \<le> j \<and> j < k \<longrightarrow>
       \<not> delta (year_ic_targets alloc ci yr) (year_mc_targets alloc cm yr) (year_table alloc yr) j < tol"
    by (rule first_hit)
  from solve_partition_hit [OF this] show ?thesis
    by (intro exI [of _ k]) simp
next
  case False
  then have "\<forall>j. 1 \<le> j \<and> int j \<le> max_iter \<longrightarrow>
    \<not> delta (year_ic_targets alloc ci yr) (year_mc_targets alloc cm yr) (year_table alloc yr) j < tol"
    by blast
  from solve_partition_miss [OF this] show ?thesis
    by (intro exI [of _ "nat max_iter"]) simp
qed

lemma solve_partition_year:
  "c \<in> set (df (solve_partition alloc ci cm max_iter tol yr)) \<Longrightarrow> year c = yr"
proof -
  assume c: "c \<in> set (df (solve_partition alloc ci cm max_iter tol yr))"
  obtain k where k: "df (solve_partition alloc ci cm max_iter tol yr) =
      ipf_iterate (year_ic_targets alloc ci yr) (year_mc_targets alloc cm yr) k (year_table alloc yr)"
    using solve_partition_df_iterate by blast
  have "map year (df (solve_partition alloc ci cm max_iter tol yr)) = map year (year_table alloc yr)"
    unfolding k
    by (rule ipf_iterate_fields)
       (simp_all add: year_ic_targets_def year_mc_targets_def row_targets_def)
  then have "set (map year (df (solve_partition alloc ci cm max_iter tol yr))) =
             set (map year (year_table alloc yr))"
    by simp
  with c have "year c \<in> set (map year (year_table alloc yr))"
    by auto
  then show "year c = yr"
    by (auto simp: year_table_def)
qed

lemma solve_partition_log_cases:
  "log (solve_partition alloc ci cm max_iter tol yr) = [] \<or>
   (\<exists>i x. log (solve_partition alloc ci cm max_iter tol yr) = [Converged yr i x])"
proof (cases "\<exists>k. 1 \<le> k \<and> int k \<le> max_iter \<and>
    delta (year_ic_targets alloc ci yr) (year_mc_targets alloc cm yr) (year_table alloc yr) k < tol")
  case True
  then obtain k where "1 \<le> k" "int k \<le> max_iter"
    "delta (year_ic_targets alloc ci yr) (year_mc_targets alloc cm yr) (year_table alloc yr) k < tol"
    "\<forall>j. 1 \<le> j \<and> j < k \<longrightarrow>
       \<not> delta (year_ic_targets alloc ci yr) (year_mc_targets alloc cm yr) (year_table alloc yr) j < tol"
    by (rule first_hit)
  from solve_partition_hit [OF this] show ?thesis
    by simp
next
  case False
  then have "\<forall>j. 1 \<le> j \<and> int j \<le> max_iter \<longrightarrow>
    \<not> delta (year_ic_targets alloc ci yr) (year_mc_targets alloc cm yr) (year_table alloc yr) j < tol"
    by blast
  from solve_partition_miss [OF this] show ?thesis
    by simp
qed

lemma partition_log_year:
  "m \<in> set (partition_log alloc ci cm max_iter tol yr) \<Longrightarrow> msg_year m = yr"
  using solve_partition_log_cases [of alloc ci cm max_iter tol yr]
  by (auto simp: partition_log_def Let_def split: if_splits)

lemma filter_concat_keyed:
  assumes "distinct ys" and "\<And>z x. z \<in> set ys \<Longrightarrow> x \<in> set (F z) \<Longrightarrow> g x = z"
  shows "filter (\<lambda>x. g x = y) (concat (map F ys)) = (if y \<in> set ys then F y else [])"
  using assms
proof (induction ys)
  case Nil
  show ?case by simp
next
  case (Cons z ys)
  have own: "filter (\<lambda>x. g x = y) (F z) = (if y = z then F z else [])"
    using Cons.prems(2) [of z] by (auto simp: filter_empty_conv filter_id_conv)
  have rest: "filter (\<lambda>x. g x = y) (concat (map F ys)) = (if y \<in> set ys then F y else [])"
    using Cons.prems by (intro Cons.IH) auto
  show ?case
    using Cons.prems(1) by (auto simp: own rest)
qed

lemma run_years_slice:
  assumes "distinct ys" "y \<in> set ys" "year_table alloc y \<noteq> []"
  shows "filter (\<lambda>c. year c = y)
           (concat (results (run_years ys alloc ci cm max_iter tol initial_state))) =
           df (solve_partition alloc ci cm max_iter tol y)"
    and "filter (\<lambda>m. msg_year m = y) (log (run_years ys alloc ci cm max_iter tol initial_state)) =
           partition_log alloc ci cm max_iter tol y"
proof -
  let ?ys = "filter (\<lambda>y. year_table alloc y \<noteq> []) ys"
  have dist: "distinct ?ys" and mem: "y \<in> set ?ys"
    using assms by simp_all
  have res: "results (run_years ys alloc ci cm max_iter tol initial_state) =
               map (\<lambda>y. df (solve_partition alloc ci cm max_iter tol y)) ?ys"
    and lg: "log (run_years ys alloc ci cm max_iter tol initial_state) =
               concat (map (partition_log alloc ci cm max_iter tol) ?ys)"
    using run_years_solve [of ys alloc ci cm max_iter tol initial_state]
    by (simp_all add: initial_state_def)
  show "filter (\<lambda>c. year c = y)
           (concat (results (run_years ys alloc ci cm max_iter tol initial_state))) =
           df (solve_partition alloc ci cm max_iter tol y)"
    unfolding res using mem
    by (subst filter_concat_keyed [OF dist]) (auto dest: solve_partition_year)
  show "filter (\<lambda>m. msg_year m = y) (log (run_years ys alloc ci cm max_iter tol initial_state)) =
           partition_log alloc ci cm max_iter tol y"
    unfolding lg using mem
    by (subst filter_concat_keyed [OF dist]) (auto dest: partition_log_year)
qed

lemma filter_year_clip:
  "filter (\<lambda>c. year c = y) (map clip_lower d) = map clip_lower (filter (\<lambda>c. year c = y) d)"
  by (induction d) (simp_all add: clip_lower_def)

lemma run_ipf_slice:
  assumes "year_table alloc yr \<noteq> []"
  shows "case run_ipf alloc ci cm max_iter tol of
           Inl e \<Rightarrow> False
         | Inr (out, lg) \<Rightarrow>
             filter (\<lambda>c. year c = yr) out =
               map clip_lower (df (solve_partition alloc ci cm max_iter tol yr)) \<and>
             filter (\<lambda>m. msg_year m = yr) lg = partition_log alloc ci cm max_iter tol yr"
proof -
  let ?ys = "sort (remdups (map year alloc))"
  let ?st = "run_years ?ys alloc ci cm max_iter tol initial_state"
  have dist: "distinct ?ys"
    by simp
  obtain c where "c \<in> set alloc" "year c = yr"
    using assms by (auto simp: year_table_def filter_empty_conv)
  then have mem: "yr \<in> set ?ys"
    by auto
  have res: "results ?st =
      map (\<lambda>y. df (solve_partition alloc ci cm max_iter tol y))
          (filter (\<lambda>y. year_table alloc y \<noteq> []) ?ys)"
    using run_years_solve [of ?ys alloc ci cm max_iter tol initial_state]
    by (simp add: initial_state_def)
  have "yr \<in> set (filter (\<lambda>y. year_table alloc y \<noteq> []) ?ys)"
    using mem assms by simp
  then have ne: "results ?st \<noteq> []"
    unfolding res by (auto simp del: set_filter)
  show ?thesis
    using ne run_years_slice [OF dist mem assms, of ci cm max_iter tol]
    by (simp add: run_ipf_def finish_def Let_def filter_year_clip)
qed

lemma ex_year:
  "year_table ex_table 2020 = ex_table"
  "year_ic_targets ex_table ex_ci 2020 = [300, 500, 20]"
  "year_mc_targets ex_table ex_cm 2020 = [350, 450, 20]"
  by (simp_all add: year_table_def year_ic_targets_def year_mc_targets_def ex_ci_def ex_cm_def
      ex_defs row_targets_def set_index_def lookup_get_def ic_key_def mc_key_def)

lemma ex_pass:
  "ipf_pass [300, 500, 20] [350, 450, 20] ex_table = ex_table1"
  "ipf_pass [300, 500, 20] [350, 450, 20] ex_table1 = ex_table1"
  by (simp_all add: ipf_pass_def ex_table1_def ex_defs step_defs)

lemma ex_delta:
  "delta [300, 500, 20] [350, 450, 20] ex_table (Suc 0) = 3 / 10"
  "delta [300, 500, 20] [350, 450, 20] ex_table (Suc (Suc 0)) = 0"
  by (simp_all add: delta_def ipf_iterate_def ex_pass)
     (simp_all add: ex_table1_def ex_defs estimates_def max_change_def eps_def)

text \<open>
  C5. For the solve of a year, \<open>converged\<close> holds exactly when one of the passes
  \<open>1, \<dots>, max_iter\<close> has a change below \<open>tol\<close>; the loop stops at the first such pass,
  whose number and change are the ones reported, so a reported change below \<open>tol\<close> means
  \<open>converged\<close>. When no pass qualifies, \<open>converged\<close> stays false, the table after
  \<open>max_iter\<close> passes is kept, and it is part of the output of the run like any other.
\<close>

theorem solver_stopping_rule:
  fixes alloc :: "cell list" and ci cm :: "target_row list" and max_iter yr :: int and tol :: real
  defines "s \<equiv> solve_partition alloc ci cm max_iter tol yr"
    and "D \<equiv> delta (year_ic_targets alloc ci yr) (year_mc_targets alloc cm yr) (year_table alloc yr)"
    and "T \<equiv> \<lambda>n. ipf_iterate (year_ic_targets alloc ci yr) (year_mc_targets alloc cm yr) n
                   (year_table alloc yr)"
  shows "(converged s \<longleftrightarrow> (\<exists>k. 1 \<le> k \<and> int k \<le> max_iter \<and> D k < tol)) \<and>
         (converged s \<longrightarrow>
            1 \<le> iteration s \<and> iteration s \<le> max_iter \<and> D (nat (iteration s)) < tol \<and>
            (\<forall>j. 1 \<le> j \<and> j < nat (iteration s) \<longrightarrow> \<not> D j < tol) \<and>
            final_max_change s = Some (D (nat (iteration s))) \<and>
            df s = T (nat (iteration s)) \<and>
            partition_log alloc ci cm max_iter tol yr =
              [Converged yr (iteration s) (D (nat (iteration s)))]) \<and>
         (\<forall>x. final_max_change s = Some x \<and> x < tol \<longrightarrow> converged s) \<and>
         (\<not> converged s \<longrightarrow>
            df s = T (nat max_iter) \<and>
            partition_log alloc ci cm max_iter tol yr =
              [Not_converged yr max_iter (final_max_change s)]) \<and>
         (year_table alloc yr \<noteq> [] \<longrightarrow>
            (case run_ipf alloc ci cm max_iter tol of
               Inl e \<Rightarrow> False
             | Inr (out, lg) \<Rightarrow>
                 filter (\<lambda>c. year c = yr) out = map clip_lower (df s) \<and>
                 filter (\<lambda>m. msg_year m = yr) lg = partition_log alloc ci cm max_iter tol yr))"
proof -
  have out: "year_table alloc yr \<noteq> [] \<longrightarrow>
            (case run_ipf alloc ci cm max_iter tol of
               Inl e \<Rightarrow> False
             | Inr (out, lg) \<Rightarrow>
                 filter (\<lambda>c. year c = yr) out = map clip_lower (df s) \<and>
                 filter (\<lambda>m. msg_year m = yr) lg = partition_log alloc ci cm max_iter tol yr)"
    unfolding s_def using run_ipf_slice by blast
  show ?thesis
  proof (cases "\<exists>k. 1 \<le> k \<and> int k \<le> max_iter \<and> D k < tol")
    case True
    then obtain k where k: "1 \<le> k" "int k \<le> max_iter" "D k < tol"
      "\<forall>j. 1 \<le> j \<and> j < k \<longrightarrow> \<not> D j < tol"
      by (rule first_hit)
    have s: "s = \<lparr>df = T k, converged = True, final_max_change = Some (D k), iteration = int k,
                  results = [], log = [Converged yr (int k) (D k)]\<rparr>"
      unfolding s_def T_def D_def
      by (rule solve_partition_hit) (use k in \<open>simp_all add: D_def\<close>)
    have pl: "partition_log alloc ci cm max_iter tol yr = [Converged yr (int k) (D k)]"
      unfolding partition_log_def s_def [symmetric] by (simp add: s)
    show ?thesis
      using True k out pl by (simp add: s)
  next
    case False
    then have no: "\<forall>j. 1 \<le> j \<and> int j \<le> max_iter \<longrightarrow> \<not> D j < tol"
      by blast
    have s: "s = \<lparr>df = T (nat max_iter), converged = False,
                  final_max_change = (if 1 \<le> max_iter then Some (D (nat max_iter)) else None),
                  iteration = (if 1 \<le> max_iter then max_iter else 0),
                  results = [], log = []\<rparr>"
      unfolding s_def T_def D_def
      by (rule solve_partition_miss) (use no in \<open>simp add: D_def\<close>)
    have pl: "partition_log alloc ci cm max_iter tol yr = [Not_converged yr max_iter (final_max_change s)]"
      unfolding partition_log_def s_def [symmetric] by (simp add: s)
    have fin: "\<forall>x. final_max_change s = Some x \<and> x < tol \<longrightarrow> converged s"
      using no by (auto simp: s split: if_splits)
    show ?thesis
      using False out pl fin by (simp add: s)
  qed
qed

theorem solver_stopping_rule_witness:
  "converged (solve_partition ex_table ex_ci ex_cm 100 (1 / 1000) 2020) \<and>
   iteration (solve_partition ex_table ex_ci ex_cm 100 (1 / 1000) 2020) = 2 \<and>
   final_max_change (solve_partition ex_table ex_ci ex_cm 100 (1 / 1000) 2020) = Some 0 \<and>
   df (solve_partition ex_table ex_ci ex_cm 100 (1 / 1000) 2020) = ex_table1 \<and>
   \<not> converged (solve_partition ex_table ex_ci ex_cm 1 (1 / 1000) 2020) \<and>
   df (solve_partition ex_table ex_ci ex_cm 1 (1 / 1000) 2020) = ex_table1 \<and>
   partition_log ex_table ex_ci ex_cm 1 (1 / 1000) 2020 =
     [Not_converged 2020 1 (final_max_change (solve_partition ex_table ex_ci ex_cm 1 (1 / 1000) 2020))] \<and>
   (case run_ipf ex_table ex_ci ex_cm 1 (1 / 1000) of
      Inl e \<Rightarrow> False
    | Inr (out, lg) \<Rightarrow>
        filter (\<lambda>c. year c = 2020) out =
          map clip_lower (df (solve_partition ex_table ex_ci ex_cm 1 (1 / 1000) 2020)) \<and>
        filter (\<lambda>m. msg_year m = 2020) lg = partition_log ex_table ex_ci ex_cm 1 (1 / 1000) 2020)"
proof -
  let ?D = "delta [300, 500, 20] [350, 450, 20] ex_table"
  have hit: "\<exists>k. 1 \<le> k \<and> int k \<le> 100 \<and> ?D k < 1 / 1000"
    by (rule exI [of _ "Suc (Suc 0)"]) (simp add: ex_delta)
  have miss: "\<not> (\<exists>k. 1 \<le> k \<and> int k \<le> 1 \<and> ?D k < 1 / 1000)"
  proof
    assume "\<exists>k. 1 \<le> k \<and> int k \<le> 1 \<and> ?D k < 1 / 1000"
    then obtain k where "1 \<le> k" "int k \<le> 1" "?D k < 1 / 1000"
      by blast
    then have "k = Suc 0" "?D k < 1 / 1000"
      by simp_all
    then show False
      by (simp add: ex_delta)
  qed
  have ne: "ex_table \<noteq> []"
    by (simp add: ex_table_def)
  have it: "ipf_iterate [300, 500, 20] [350, 450, 20] (Suc 0) ex_table = ex_table1"
           "ipf_iterate [300, 500, 20] [350, 450, 20] (Suc (Suc 0)) ex_table = ex_table1"
    by (simp_all add: ipf_iterate_def ex_pass)
  note a = solver_stopping_rule [of ex_table ex_ci ex_cm 100 "1 / 1000" 2020, unfolded ex_year]
  note b = solver_stopping_rule [of ex_table ex_ci ex_cm 1 "1 / 1000" 2020, unfolded ex_year]
  from a hit have c: "converged (solve_partition ex_table ex_ci ex_cm 100 (1 / 1000) 2020)"
    by blast
  let ?i = "iteration (solve_partition ex_table ex_ci ex_cm 100 (1 / 1000) 2020)"
  from a c have i: "1 \<le> ?i" "?D (nat ?i) < 1 / 1000"
    "\<forall>j. 1 \<le> j \<and> j < nat ?i \<longrightarrow> \<not> ?D j < 1 / 1000"
    "final_max_change (solve_partition ex_table ex_ci ex_cm 100 (1 / 1000) 2020) = Some (?D (nat ?i))"
    "df (solve_partition ex_table ex_ci ex_cm 100 (1 / 1000) 2020) =
       ipf_iterate [300, 500, 20] [350, 450, 20] (nat ?i) ex_table"
    by blast+
  have "nat ?i \<noteq> Suc 0"
    using i(2) by (auto simp: ex_delta)
  moreover have "\<not> Suc (Suc 0) < nat ?i"
    using i(3) by (auto simp: ex_delta)
  ultimately have n: "nat ?i = Suc (Suc 0)"
    using i(1) by linarith
  then have i2: "?i = 2"
    by linarith
  from b miss have nc: "\<not> converged (solve_partition ex_table ex_ci ex_cm 1 (1 / 1000) 2020)"
    by blast
  from b nc ne have rest:
    "df (solve_partition ex_table ex_ci ex_cm 1 (1 / 1000) 2020) =
       ipf_iterate [300, 500, 20] [350, 450, 20] (nat 1) ex_table"
    "partition_log ex_table ex_ci ex_cm 1 (1 / 1000) 2020 =
       [Not_converged 2020 1 (final_max_change (solve_partition ex_table ex_ci ex_cm 1 (1 / 1000) 2020))]"
    "(case run_ipf ex_table ex_ci ex_cm 1 (1 / 1000) of
      Inl e \<Rightarrow> False
    | Inr (out, lg) \<Rightarrow>
        filter (\<lambda>c. year c = 2020) out =
          map clip_lower (df (solve_partition ex_table ex_ci ex_cm 1 (1 / 1000) 2020)) \<and>
        filter (\<lambda>m. msg_year m = 2020) lg = partition_log ex_table ex_ci ex_cm 1 (1 / 1000) 2020)"
    by blast+
  show ?thesis
    using c i(4,5) rest nc unfolding n i2 by (simp add: ex_delta it numeral_2_eq_2)
qed

section \<open>Independence of the years\<close>

lemma run_years_year:
  assumes "distinct ys"
  shows "filter (\<lambda>c. year c = y)
           (concat (results (run_years ys alloc ci cm max_iter tol initial_state))) =
           (if y \<in> set ys \<and> year_table alloc y \<noteq> []
            then df (solve_partition alloc ci cm max_iter tol y) else [])"
    and "filter (\<lambda>m. msg_year m = y) (log (run_years ys alloc ci cm max_iter tol initial_state)) =
           (if y \<in> set ys \<and> year_table alloc y \<noteq> []
            then partition_log alloc ci cm max_iter tol y else [])"
proof -
  let ?ys = "filter (\<lambda>y. year_table alloc y \<noteq> []) ys"
  have dist: "distinct ?ys"
    using assms by simp
  have res: "results (run_years ys alloc ci cm max_iter tol initial_state) =
               map (\<lambda>y. df (solve_partition alloc ci cm max_iter tol y)) ?ys"
    and lg: "log (run_years ys alloc ci cm max_iter tol initial_state) =
               concat (map (partition_log alloc ci cm max_iter tol) ?ys)"
    using run_years_solve [of ys alloc ci cm max_iter tol initial_state]
    by (simp_all add: initial_state_def)
  show "filter (\<lambda>c. year c = y)
           (concat (results (run_years ys alloc ci cm max_iter tol initial_state))) =
           (if y \<in> set ys \<and> year_table alloc y \<noteq> []
            then df (solve_partition alloc ci cm max_iter tol y) else [])"
    unfolding res
    by (subst filter_concat_keyed [OF dist]) (auto dest: solve_partition_year)
  show "filter (\<lambda>m. msg_year m = y) (log (run_years ys alloc ci cm max_iter tol initial_state)) =
           (if y \<in> set ys \<and> year_table alloc y \<noteq> []
            then partition_log alloc ci cm max_iter tol y else [])"
    unfolding lg
    by (subst filter_concat_keyed [OF dist]) (auto dest: partition_log_year)
qed

text \<open>
  C7. Whatever the order in which the years are processed, the cells and the report that
  the run holds for a year are the same: what the year loop adds for a year is the solve
  of that year alone, whatever state the earlier years left behind, and that solve reads
  only the rows of its own year.
\<close>

theorem year_order_independence:
  assumes "distinct ys1" and "distinct ys2" and "y \<in> set ys1" and "y \<in> set ys2"
  shows "filter (\<lambda>c. year c = y)
           (concat (results (run_years ys1 alloc ci cm max_iter tol initial_state))) =
         filter (\<lambda>c. year c = y)
           (concat (results (run_years ys2 alloc ci cm max_iter tol initial_state))) \<and>
         filter (\<lambda>m. msg_year m = y) (log (run_years ys1 alloc ci cm max_iter tol initial_state)) =
         filter (\<lambda>m. msg_year m = y) (log (run_years ys2 alloc ci cm max_iter tol initial_state)) \<and>
         (year_table alloc y \<noteq> [] \<longrightarrow>
            results (year_body alloc ci cm max_iter tol y st) =
              results st @ [df (solve_partition alloc ci cm max_iter tol y)] \<and>
            log (year_body alloc ci cm max_iter tol y st) =
              log st @ partition_log alloc ci cm max_iter tol y) \<and>
         (year_table alloc y = year_table alloc' y \<and>
          filter (\<lambda>t. t_year t = y) ci = filter (\<lambda>t. t_year t = y) ci' \<and>
          filter (\<lambda>t. t_year t = y) cm = filter (\<lambda>t. t_year t = y) cm' \<longrightarrow>
            solve_partition alloc ci cm max_iter tol y = solve_partition alloc' ci' cm' max_iter tol y)"
proof -
  have "year_table alloc y \<noteq> [] \<longrightarrow>
            results (year_body alloc ci cm max_iter tol y st) =
              results st @ [df (solve_partition alloc ci cm max_iter tol y)] \<and>
            log (year_body alloc ci cm max_iter tol y st) =
              log st @ partition_log alloc ci cm max_iter tol y"
    by (simp add: year_body_solve)
  moreover have "year_table alloc y = year_table alloc' y \<and>
          filter (\<lambda>t. t_year t = y) ci = filter (\<lambda>t. t_year t = y) ci' \<and>
          filter (\<lambda>t. t_year t = y) cm = filter (\<lambda>t. t_year t = y) cm' \<longrightarrow>
            solve_partition alloc ci cm max_iter tol y = solve_partition alloc' ci' cm' max_iter tol y"
    by (simp add: solve_partition_def year_ic_targets_def year_mc_targets_def)
  ultimately show ?thesis
    using assms by (simp add: run_years_year)
qed

theorem year_order_independence_witness:
  "filter (\<lambda>c. year c = 2020)
     (concat (results (run_years [2020, 2021] ex_two_years ex_ci2 ex_cm2 100 (1 / 1000) initial_state))) =
   filter (\<lambda>c. year c = 2020)
     (concat (results (run_years [2021, 2020] ex_two_years ex_ci2 ex_cm2 100 (1 / 1000) initial_state))) \<and>
   filter (\<lambda>m. msg_year m = 2020)
     (log (run_years [2020, 2021] ex_two_years ex_ci2 ex_cm2 100 (1 / 1000) initial_state)) =
   filter (\<lambda>m. msg_year m = 2020)
     (log (run_years [2021, 2020] ex_two_years ex_ci2 ex_cm2 100 (1 / 1000) initial_state)) \<and>
   results (year_body ex_two_years ex_ci2 ex_cm2 100 (1 / 1000) 2020 (ex_state ex_zero)) =
     results (ex_state ex_zero) @ [df (solve_partition ex_two_years ex_ci2 ex_cm2 100 (1 / 1000) 2020)] \<and>
   solve_partition ex_two_years ex_ci2 ex_cm2 100 (1 / 1000) 2020 =
     solve_partition ex_table ex_ci ex_cm 100 (1 / 1000) 2020"
proof -
  have d: "distinct [2020, 2021 :: int]" "distinct [2021, 2020 :: int]"
    "(2020 :: int) \<in> set [2020, 2021]" "(2020 :: int) \<in> set [2021, 2020]"
    by simp_all
  have ne: "year_table ex_two_years 2020 \<noteq> []"
    by (simp add: year_table_def ex_two_years_def ex_defs)
  have same: "year_table ex_two_years 2020 = year_table ex_table 2020"
    "filter (\<lambda>t. t_year t = 2020) ex_ci2 = filter (\<lambda>t. t_year t = 2020) ex_ci"
    "filter (\<lambda>t. t_year t = 2020) ex_cm2 = filter (\<lambda>t. t_year t = 2020) ex_cm"
    by (simp_all add: year_table_def ex_two_years_def ex_ci2_def ex_cm2_def ex_defs)
  show ?thesis
    using year_order_independence [OF d, of ex_two_years ex_ci2 ex_cm2 100 "1 / 1000"
        "ex_state ex_zero" ex_table ex_ci ex_cm] ne same
    by simp
qed

section \<open>Cells that have reached zero\<close>

lemma scale_step_zero:
  assumes "length ts = length d" "j < length d" "enrollment_est (d ! j) = 0"
  shows "enrollment_est (scale_step key ts d ! j) = 0"
  using assms by (simp add: scale_step_est_nth)

lemma apply_step_zero:
  assumes "length ict = length d" "length mct = length d" "j < length d"
    and "enrollment_est (d ! j) = 0"
  shows "enrollment_est (apply_step ict mct s d ! j) = 0 \<and> length (apply_step ict mct s d) = length d"
  using assms
  by (cases s) (simp_all add: step_A_def step_B_def scale_step_zero scale_step_length)

lemma apply_steps_zero:
  assumes "length ict = length d" "length mct = length d" "j < length d"
    and "enrollment_est (d ! j) = 0"
  shows "enrollment_est (apply_steps ict mct steps d ! j) = 0"
  using assms
proof (induction steps arbitrary: d)
  case Nil
  then show ?case by (simp add: apply_steps_def)
next
  case (Cons s steps)
  have "enrollment_est (apply_steps ict mct steps (apply_step ict mct s d) ! j) = 0"
    using apply_step_zero [OF Cons.prems, of s] Cons.prems by (intro Cons.IH) simp_all
  then show ?case
    by (simp add: apply_steps_def)
qed

lemma ipf_iterate_zero:
  assumes "length ict = length d" "length mct = length d" "j < length d"
    and "enrollment_est (step_A ict d ! j) = 0"
  shows "enrollment_est (ipf_iterate ict mct (Suc n) d ! j) = 0"
proof (induction n)
  case 0
  have "enrollment_est (step_B mct (step_A ict d) ! j) = 0"
    unfolding step_B_def using assms
    by (intro scale_step_zero) (simp_all add: step_A_def scale_step_length)
  then show ?case
    by (simp add: ipf_iterate_def ipf_pass_def)
next
  case (Suc n)
  let ?d = "ipf_iterate ict mct (Suc n) d"
  have l: "length ?d = length d"
    using assms(1,2) by (rule ipf_iterate_length)
  have a: "enrollment_est (step_A ict ?d ! j) = 0" and la: "length (step_A ict ?d) = length d"
    unfolding step_A_def using assms l Suc by (simp_all add: scale_step_zero scale_step_length)
  have "enrollment_est (step_B mct (step_A ict ?d) ! j) = 0"
    unfolding step_B_def using assms a la by (intro scale_step_zero) simp_all
  then show ?case
    by (simp add: ipf_iterate_Suc)
qed

text \<open>
  C4. When the IC target of an (insurer, county) group is 0, or the key is absent from the
  margin lookup, and the group's sum exceeds \<open>eps\<close>, Step A sets every cell of the group
  to 0, and the cell is 0 after any further sequence of Step A and Step B, in particular
  at the end of every later pass.
\<close>

theorem zero_target_absorption:
  assumes "i < length d"
    and "map_of ic (ic_key (d ! i)) = None \<or> map_of ic (ic_key (d ! i)) = Some 0"
    and "eps < group_sum ic_key d (ic_key (d ! i))"
    and "j < length d" and "ic_key (d ! j) = ic_key (d ! i)"
  shows "enrollment_est (step_A (row_targets ic_key ic d) d ! j) = 0 \<and>
         enrollment_est (apply_steps (row_targets ic_key ic d) (row_targets mc_key mc d) steps
                           (step_A (row_targets ic_key ic d) d) ! j) = 0 \<and>
         enrollment_est (ipf_iterate (row_targets ic_key ic d) (row_targets mc_key mc d) (Suc n) d ! j) = 0"
proof -
  let ?ict = "row_targets ic_key ic d" and ?mct = "row_targets mc_key mc d"
  have len: "length ?ict = length d" "length ?mct = length d"
    by (simp_all add: row_targets_def)
  have t: "?ict ! j = 0"
    using assms(2,4,5) by (auto simp: row_targets_def lookup_get_def)
  have a: "enrollment_est (step_A ?ict d ! j) = 0"
    unfolding step_A_def scale_step_est_nth [OF len(1) assms(4)] by (simp add: t)
  have la: "length (step_A ?ict d) = length d"
    by (simp add: step_A_def scale_step_length len)
  have "enrollment_est (apply_steps ?ict ?mct steps (step_A ?ict d) ! j) = 0"
    using len la assms(4) a by (intro apply_steps_zero) simp_all
  moreover have "enrollment_est (ipf_iterate ?ict ?mct (Suc n) d ! j) = 0"
    using len assms(4) a by (rule ipf_iterate_zero)
  ultimately show ?thesis
    using a by simp
qed

theorem zero_target_absorption_witness:
  "enrollment_est (step_A (row_targets ic_key ex_ic ex_orphan) ex_orphan ! 0) = 0 \<and>
   enrollment_est (apply_steps (row_targets ic_key ex_ic ex_orphan) (row_targets mc_key ex_mc ex_orphan)
                     [StepB, StepA, StepB] (step_A (row_targets ic_key ex_ic ex_orphan) ex_orphan) ! 0) = 0 \<and>
   enrollment_est (ipf_iterate (row_targets ic_key ex_ic ex_orphan) (row_targets mc_key ex_mc ex_orphan)
                     (Suc 2) ex_orphan ! 0) = 0"
proof -
  have h: "0 < length ex_orphan"
    "map_of ex_ic (ic_key (ex_orphan ! 0)) = None \<or> map_of ex_ic (ic_key (ex_orphan ! 0)) = Some 0"
    "eps < group_sum ic_key ex_orphan (ic_key (ex_orphan ! 0))"
    by (simp_all add: ex_orphan_def ex_defs ic_key_def group_sum_def eps_def)
  show ?thesis
    using zero_target_absorption [OF h h(1), of ex_mc "[StepB, StepA, StepB]" 2] by simp
qed

section \<open>What convergence says about the last pass and about a further one\<close>

lemma max_change_bound:
  assumes "length cur = length prev" "max_change prev cur < tol" "j < length prev" "eps < prev ! j"
  shows "\<bar>cur ! j - prev ! j\<bar> / prev ! j < tol"
proof -
  let ?S = "{\<bar>cur ! i - prev ! i\<bar> / prev ! i | i. i < length prev \<and> eps < prev ! i}"
  have fin: "finite ?S"
    by simp
  have mem: "\<bar>cur ! j - prev ! j\<bar> / prev ! j \<in> ?S"
    using assms(3,4) by blast
  have "max_change prev cur = Max ?S"
    using assms(1,3,4) by (intro max_change_Max) auto
  moreover have "\<bar>cur ! j - prev ! j\<bar> / prev ! j \<le> Max ?S"
    using fin mem by (rule Max_ge)
  ultimately show ?thesis
    using assms(2) by simp
qed

lemma cx_year:
  "year_table cx_table 2020 = cx_table"
  "year_ic_targets cx_table cx_ci 2020 = [2400, 2400, 700]"
  "year_mc_targets cx_table cx_cm 2020 = [500, 1300, 500]"
  by (simp_all add: year_table_def year_ic_targets_def year_mc_targets_def cx_ci_def cx_cm_def
      cx_table_def ex_cell_def ex_target_def row_targets_def set_index_def lookup_get_def
      ic_key_def mc_key_def)

lemma cx_pass:
  "ipf_pass [2400, 2400, 700] [500, 1300, 500] cx_table = cx_table1"
  "ipf_pass [2400, 2400, 700] [500, 1300, 500] cx_table1 = cx_table2"
  by (simp_all add: ipf_pass_def cx_table_def cx_table1_def cx_table2_def ex_cell_def step_defs)

lemma cx_delta:
  "delta [2400, 2400, 700] [500, 1300, 500] cx_table (Suc 0) = 1 / 1199"
  by (simp add: delta_def ipf_iterate_def cx_pass)
     (simp add: cx_table_def cx_table1_def ex_cell_def estimates_def max_change_def eps_def)

lemma cx_solve:
  "solve_partition cx_table cx_ci cx_cm 100 (1 / 1000) 2020 =
     \<lparr>df = cx_table1, converged = True, final_max_change = Some (1 / 1199), iteration = 1,
      results = [], log = [Converged 2020 1 (1 / 1199)]\<rparr>"
  using solve_partition_hit [of "Suc 0" 100 cx_table cx_ci 2020 cx_cm "1 / 1000"]
  unfolding cx_year by (simp add: cx_delta ipf_iterate_def cx_pass)

text \<open>
  C6 does not hold. On \<open>cx_table\<close> the first pass changes no cell by more than
  \<open>1/1199\<close>, so the solver declares convergence at iteration 1 with the default
  tolerance \<open>0.001\<close>; one more pass changes the first cell by \<open>35/28741\<close>, which is
  above the tolerance.
\<close>

theorem extra_pass_counterexample:
  "converged (solve_partition cx_table cx_ci cx_cm 100 (1 / 1000) 2020) \<and>
   df (solve_partition cx_table cx_ci cx_cm 100 (1 / 1000) 2020) = cx_table1 \<and>
   eps < enrollment_est (cx_table1 ! 0) \<and>
   \<not> \<bar>enrollment_est (ipf_pass (year_ic_targets cx_table cx_ci 2020)
                          (year_mc_targets cx_table cx_cm 2020) cx_table1 ! 0)
        - enrollment_est (cx_table1 ! 0)\<bar> / enrollment_est (cx_table1 ! 0) < 1 / 1000"
  unfolding cx_year cx_pass cx_solve
  by (simp add: cx_table1_def cx_table2_def ex_cell_def eps_def)

lemma ex_solve:
  "solve_partition ex_table ex_ci ex_cm 100 (1 / 1000) 2020 =
     \<lparr>df = ex_table1, converged = True, final_max_change = Some 0, iteration = 2,
      results = [], log = [Converged 2020 2 0]\<rparr>"
proof -
  have "\<forall>j. 1 \<le> j \<and> j < Suc (Suc 0) \<longrightarrow>
          \<not> delta [300, 500, 20] [350, 450, 20] ex_table j < 1 / 1000"
  proof (intro allI impI)
    fix j :: nat assume "1 \<le> j \<and> j < Suc (Suc 0)"
    then have "j = Suc 0" by simp
    then show "\<not> delta [300, 500, 20] [350, 450, 20] ex_table j < 1 / 1000"
      by (simp add: ex_delta)
  qed
  then show ?thesis
    using solve_partition_hit [of "Suc (Suc 0)" 100 ex_table ex_ci 2020 ex_cm "1 / 1000"]
    unfolding ex_year by (simp add: ex_delta ipf_iterate_def ex_pass)
qed

text \<open>
  C6, amended. When the solve of a year has declared convergence, it is the pass that
  declared it, the last one made, that changed every cell whose estimate before that
  pass exceeded \<open>eps\<close> by less than \<open>tol\<close> in relative terms.
\<close>

theorem converged_last_pass_change:
  fixes alloc :: "cell list" and ci cm :: "target_row list" and max_iter yr :: int and tol :: real
  defines "s \<equiv> solve_partition alloc ci cm max_iter tol yr"
    and "T \<equiv> \<lambda>n. ipf_iterate (year_ic_targets alloc ci yr) (year_mc_targets alloc cm yr) n
                   (year_table alloc yr)"
  assumes "converged s" and "j < length (year_table alloc yr)"
    and "eps < enrollment_est (T (nat (iteration s) - 1) ! j)"
  shows "1 \<le> iteration s \<and> df s = T (nat (iteration s)) \<and>
         \<bar>enrollment_est (df s ! j) - enrollment_est (T (nat (iteration s) - 1) ! j)\<bar>
           / enrollment_est (T (nat (iteration s) - 1) ! j) < tol"
proof -
  let ?ict = "year_ic_targets alloc ci yr" and ?mct = "year_mc_targets alloc cm yr"
  let ?d = "year_table alloc yr"
  let ?D = "delta ?ict ?mct ?d"
  have len: "length ?ict = length ?d" "length ?mct = length ?d"
    by (simp_all add: year_ic_targets_def year_mc_targets_def row_targets_def)
  have lT: "length (T n) = length ?d" for n
    unfolding T_def using len by (rule ipf_iterate_length)
  have "\<exists>k. 1 \<le> k \<and> int k \<le> max_iter \<and> ?D k < tol"
  proof (rule ccontr)
    assume "\<not> (\<exists>k. 1 \<le> k \<and> int k \<le> max_iter \<and> ?D k < tol)"
    then have "\<forall>j. 1 \<le> j \<and> int j \<le> max_iter \<longrightarrow> \<not> ?D j < tol"
      by blast
    from solve_partition_miss [OF this] have "\<not> converged s"
      unfolding s_def by simp
    with assms(3) show False by simp
  qed
  then obtain k where k: "1 \<le> k" "int k \<le> max_iter" "?D k < tol"
    "\<forall>j. 1 \<le> j \<and> j < k \<longrightarrow> \<not> ?D j < tol"
    by (rule first_hit)
  from solve_partition_hit [OF k] have s: "iteration s = int k" "df s = T k"
    unfolding s_def T_def by simp_all
  have mc: "max_change (estimates (T (k - 1))) (estimates (T k)) < tol"
    using k(3) by (simp add: delta_def T_def)
  have e: "estimates (T n) ! j = enrollment_est (T n ! j)" for n
    using assms(4) lT [of n] by (simp add: estimates_def)
  have "\<bar>estimates (T k) ! j - estimates (T (k - 1)) ! j\<bar> / estimates (T (k - 1)) ! j < tol"
  proof (rule max_change_bound [OF _ mc])
    show "length (estimates (T k)) = length (estimates (T (k - 1)))"
      by (simp add: estimates_def lT)
    show "j < length (estimates (T (k - 1)))"
      using assms(4) by (simp add: estimates_def lT)
    show "eps < estimates (T (k - 1)) ! j"
      using assms(5) by (simp add: e s)
  qed
  then show ?thesis
    using k(1) by (simp add: e s)
qed

theorem converged_last_pass_change_witness:
  "df (solve_partition ex_table ex_ci ex_cm 100 (1 / 1000) 2020) =
     ipf_iterate [300, 500, 20] [350, 450, 20] 2 ex_table \<and>
   \<bar>enrollment_est (df (solve_partition ex_table ex_ci ex_cm 100 (1 / 1000) 2020) ! 0)
      - enrollment_est (ipf_iterate [300, 500, 20] [350, 450, 20] 1 ex_table ! 0)\<bar>
     / enrollment_est (ipf_iterate [300, 500, 20] [350, 450, 20] 1 ex_table ! 0) < 1 / 1000"
proof -
  have i: "nat (iteration (solve_partition ex_table ex_ci ex_cm 100 (1 / 1000) 2020)) = 2"
    "nat (iteration (solve_partition ex_table ex_ci ex_cm 100 (1 / 1000) 2020)) - 1 = 1"
    by (simp_all add: ex_solve)
  have c: "converged (solve_partition ex_table ex_ci ex_cm 100 (1 / 1000) 2020)"
    by (simp add: ex_solve)
  have j: "0 < length (year_table ex_table 2020)"
    unfolding ex_year by (simp add: ex_table_def)
  have p: "eps < enrollment_est (ipf_iterate (year_ic_targets ex_table ex_ci 2020)
             (year_mc_targets ex_table ex_cm 2020)
             (nat (iteration (solve_partition ex_table ex_ci ex_cm 100 (1 / 1000) 2020)) - 1)
             (year_table ex_table 2020) ! 0)"
    unfolding i ex_year
    by (simp add: ipf_iterate_def ex_pass ex_table1_def ex_cell_def eps_def)
  show ?thesis
    using converged_last_pass_change [OF c j p] unfolding i ex_year by auto
qed

section \<open>Negative control totals\<close>

lemma run_ipf_eval:
  "run_ipf alloc ci cm max_iter tol =
     (let ys = filter (\<lambda>y. year_table alloc y \<noteq> []) (sort (remdups (map year alloc)))
      in if ys = [] then Inl ValueError
         else Inr (map clip_lower (concat (map (\<lambda>y. df (solve_partition alloc ci cm max_iter tol y)) ys)),
                   concat (map (partition_log alloc ci cm max_iter tol) ys)))"
  using run_years_solve [of "sort (remdups (map year alloc))" alloc ci cm max_iter tol initial_state]
  by (simp add: run_ipf_def finish_def Let_def initial_state_def)

lemma run_ipf_fails_iff:
  "(\<exists>e. run_ipf alloc ci cm max_iter tol = Inl e) \<longleftrightarrow> alloc = []"
proof
  assume "\<exists>e. run_ipf alloc ci cm max_iter tol = Inl e"
  then have none: "filter (\<lambda>y. year_table alloc y \<noteq> []) (sort (remdups (map year alloc))) = []"
    by (auto simp: run_ipf_eval Let_def split: if_splits)
  show "alloc = []"
  proof (rule ccontr)
    assume "alloc \<noteq> []"
    then obtain c where c: "c \<in> set alloc"
      by (cases alloc) auto
    then have "year_table alloc (year c) \<noteq> []"
      by (auto simp: year_table_def filter_empty_conv)
    moreover have "year c \<in> set (sort (remdups (map year alloc)))"
      using c by simp
    ultimately show False
      using none by (auto simp: filter_empty_conv)
  qed
next
  assume "alloc = []"
  then show "\<exists>e. run_ipf alloc ci cm max_iter tol = Inl e"
    by (simp add: run_ipf_eval)
qed

lemma clip_lower_est: "0 \<le> enrollment_est (clip_lower c)"
  by (simp add: clip_lower_def)

lemma groupby_sum_lookup:
  "map_of (set_index (filter (\<lambda>t. t_year t = y) (groupby_sum ts))) (k, c) =
     (if (y, k, c) \<in> set (map target_id ts)
      then Some (sum_list (map t_value (filter (\<lambda>t. target_id t = (y, k, c)) ts)))
      else None)"
proof -
  let ?ids = "remdups (map target_id ts)"
  let ?v = "\<lambda>i. sum_list (map t_value (filter (\<lambda>t. target_id t = i) ts))"
  let ?sel = "filter (\<lambda>(y', k', c'). y' = y) ?ids"
  have tbl: "set_index (filter (\<lambda>t. t_year t = y) (groupby_sum ts)) =
               map (\<lambda>(y', k', c'). ((k', c'), ?v (y', k', c'))) ?sel"
    by (simp add: set_index_def groupby_sum_def filter_map comp_def case_prod_unfold)
  have inj: "inj_on (\<lambda>(y', k', c'). (k', c')) (set ?sel)"
    by (auto simp: inj_on_def)
  have dist: "distinct (map fst (map (\<lambda>(y', k', c'). ((k', c'), ?v (y', k', c'))) ?sel))"
    using inj by (simp add: distinct_map comp_def case_prod_unfold)
  show ?thesis
  proof (cases "(y, k, c) \<in> set (map target_id ts)")
    case True
    then have "((k, c), ?v (y, k, c)) \<in> set (map (\<lambda>(y', k', c'). ((k', c'), ?v (y', k', c'))) ?sel)"
      by force
    with dist have "map_of (map (\<lambda>(y', k', c'). ((k', c'), ?v (y', k', c'))) ?sel) (k, c) = Some (?v (y, k, c))"
      by (simp only: map_of_eq_Some_iff)
    with True show ?thesis
      unfolding tbl by simp
  next
    case False
    then have "(k, c) \<notin> fst ` set (map (\<lambda>(y', k', c'). ((k', c'), ?v (y', k', c'))) ?sel)"
      by force
    then have "map_of (map (\<lambda>(y', k', c'). ((k', c'), ?v (y', k', c'))) ?sel) (k, c) = None"
      by (rule map_of_eq_None_iff [THEN iffD2])
    with False show ?thesis
      unfolding tbl by simp
  qed
qed

lemma neg_clean:
  "clean_targets id neg_raw_ci = [ex_target 2020 ''X'' ''A'' (- 5)]"
  "clean_targets id neg_raw_cm = [ex_target 2020 ''Bronze'' ''A'' 7]"
  by (simp_all add: clean_targets_def groupby_sum_def target_id_def to_numeric_fillna_def
      neg_raw_ci_def neg_raw_cm_def ex_target_def)

lemma neg_year:
  "year_table neg_alloc 2020 = neg_alloc"
  "year_ic_targets neg_alloc [ex_target 2020 ''X'' ''A'' (- 5)] 2020 = [- 5]"
  "year_mc_targets neg_alloc [ex_target 2020 ''Bronze'' ''A'' 7] 2020 = [7]"
  by (simp_all add: year_table_def year_ic_targets_def year_mc_targets_def neg_alloc_def
      ex_cell_def ex_target_def row_targets_def set_index_def lookup_get_def ic_key_def mc_key_def)

lemma neg_pass:
  "step_A [- 5] neg_alloc = [ex_cell 2020 ''A'' ''X'' ''Bronze'' (- 5)]"
  "ipf_pass [- 5] [7] neg_alloc = neg_zero"
  "ipf_pass [- 5] [7] neg_zero = neg_zero"
  by (simp_all add: ipf_pass_def neg_alloc_def neg_zero_def ex_cell_def step_defs)

lemma neg_delta:
  "delta [- 5] [7] neg_alloc (Suc 0) = 1"
  "delta [- 5] [7] neg_alloc (Suc (Suc 0)) = 0"
  by (simp_all add: delta_def ipf_iterate_def neg_pass)
     (simp_all add: neg_alloc_def neg_zero_def ex_cell_def estimates_def max_change_def eps_def)

lemma neg_solve:
  "solve_partition neg_alloc [ex_target 2020 ''X'' ''A'' (- 5)] [ex_target 2020 ''Bronze'' ''A'' 7]
     100 (1 / 1000) 2020 =
     \<lparr>df = neg_zero, converged = True, final_max_change = Some 0, iteration = 2,
      results = [], log = [Converged 2020 2 0]\<rparr>"
proof -
  have "\<forall>j. 1 \<le> j \<and> j < Suc (Suc 0) \<longrightarrow> \<not> delta [- 5] [7] neg_alloc j < 1 / 1000"
  proof (intro allI impI)
    fix j :: nat assume "1 \<le> j \<and> j < Suc (Suc 0)"
    then have "j = Suc 0" by simp
    then show "\<not> delta [- 5] [7] neg_alloc j < 1 / 1000"
      by (simp add: neg_delta)
  qed
  then show ?thesis
    using solve_partition_hit [of "Suc (Suc 0)" 100 neg_alloc "[ex_target 2020 ''X'' ''A'' (- 5)]"
        2020 "[ex_target 2020 ''Bronze'' ''A'' 7]" "1 / 1000"]
    unfolding neg_year by (simp add: neg_delta ipf_iterate_def neg_pass)
qed

lemma neg_run:
  "run_ipf neg_alloc (clean_targets id neg_raw_ci) (clean_targets id neg_raw_cm) 100 (1 / 1000) =
     Inr (neg_zero, [Converged 2020 2 0])"
proof -
  have ys: "filter (\<lambda>y. year_table neg_alloc y \<noteq> []) (sort (remdups (map year neg_alloc))) = [2020]"
    by (simp add: year_table_def neg_alloc_def ex_cell_def)
  show ?thesis
    unfolding neg_clean run_ipf_eval ys
    by (simp add: neg_solve partition_log_def Let_def neg_zero_def clip_lower_def ex_cell_def)
qed

text \<open>
  C9 does not hold. A control total of \<open>-5\<close> goes through the cleaning unchanged, Step A
  multiplies the cell by \<open>-5 / 10\<close>, and the run ends normally with its usual result,
  a table and a report of convergence.
\<close>

theorem negative_target_counterexample:
  "clean_targets id neg_raw_ci = [ex_target 2020 ''X'' ''A'' (- 5)] \<and>
   step_A (year_ic_targets neg_alloc (clean_targets id neg_raw_ci) 2020) neg_alloc =
     [ex_cell 2020 ''A'' ''X'' ''Bronze'' (- 5)] \<and>
   run_ipf neg_alloc (clean_targets id neg_raw_ci) (clean_targets id neg_raw_cm) 100 (1 / 1000) =
     Inr ([ex_cell 2020 ''A'' ''X'' ''Bronze'' 0], [Converged 2020 2 0])"
  using neg_run by (simp add: neg_clean neg_year neg_pass neg_zero_def)

lemma clean_targets_lookup:
  "lookup_get (set_index (filter (\<lambda>t. t_year t = y) (clean_targets tidy raw))) (k, c) =
     sum_list (map (\<lambda>r. to_numeric_fillna (raw_enrollees r))
       (filter (\<lambda>r. raw_year r = y \<and> raw_key r = k \<and> tidy (raw_county r) = c) raw))"
proof -
  let ?conv = "\<lambda>r. \<lparr>t_year = raw_year r, t_key = raw_key r, t_county = tidy (raw_county r),
                       t_value = to_numeric_fillna (raw_enrollees r)\<rparr>"
  let ?P = "\<lambda>r. raw_year r = y \<and> raw_key r = k \<and> tidy (raw_county r) = c"
  have sel: "filter (\<lambda>t. target_id t = (y, k, c)) (map ?conv raw) = map ?conv (filter ?P raw)"
    by (simp add: filter_map comp_def target_id_def)
  have val: "sum_list (map t_value (filter (\<lambda>t. target_id t = (y, k, c)) (map ?conv raw))) =
               sum_list (map (\<lambda>r. to_numeric_fillna (raw_enrollees r)) (filter ?P raw))"
    unfolding sel by (simp add: comp_def)
  have mem: "(y, k, c) \<in> set (map target_id (map ?conv raw)) \<longleftrightarrow> filter ?P raw \<noteq> []"
    by (auto simp: target_id_def filter_empty_conv)
  show ?thesis
    unfolding lookup_get_def clean_targets_def groupby_sum_lookup val mem
    by simp
qed

text \<open>
  C9, amended. A negative control total is not rejected. Cleaning keeps it (the target
  looked up for a key is the sum of the raw values of that key, missing ones counting as
  0); the run fails only on an empty cell table; Step A multiplies the cells of a group
  whose sum exceeds \<open>eps\<close> by the negative quotient of target and sum, which makes a
  positive estimate negative; and the output holds no negative estimate, because of the
  final clip.
\<close>

theorem negative_target_absorbed:
  "lookup_get (set_index (filter (\<lambda>t. t_year t = y) (clean_targets tidy raw))) (k, c) =
     sum_list (map (\<lambda>r. to_numeric_fillna (raw_enrollees r))
       (filter (\<lambda>r. raw_year r = y \<and> raw_key r = k \<and> tidy (raw_county r) = c) raw)) \<and>
   to_numeric_fillna (Some v) = v \<and>
   ((\<exists>e. run_ipf alloc (clean_targets tidy raw) cm max_iter tol = Inl e) \<longleftrightarrow> alloc = []) \<and>
   (\<forall>out lg. run_ipf alloc (clean_targets tidy raw) cm max_iter tol = Inr (out, lg) \<longrightarrow> nonneg out) \<and>
   (i < length d \<and> lookup_get ic (ic_key (d ! i)) < 0 \<and>
    eps < group_sum ic_key d (ic_key (d ! i)) \<and> 0 < enrollment_est (d ! i) \<longrightarrow>
      enrollment_est (step_A (row_targets ic_key ic d) d ! i) =
        enrollment_est (d ! i) * (lookup_get ic (ic_key (d ! i)) / group_sum ic_key d (ic_key (d ! i))) \<and>
      enrollment_est (step_A (row_targets ic_key ic d) d ! i) < 0)"
proof -
  have out: "nonneg out" if "run_ipf alloc (clean_targets tidy raw) cm max_iter tol = Inr (out, lg)"
    for out lg
  proof -
    from that obtain xs where "out = map clip_lower xs"
      by (auto simp: run_ipf_def finish_def Let_def split: if_splits)
    then show ?thesis
      by (simp add: nonneg_def list_all_iff clip_lower_est)
  qed
  have stepA: "enrollment_est (step_A (row_targets ic_key ic d) d ! i) =
        enrollment_est (d ! i) * (lookup_get ic (ic_key (d ! i)) / group_sum ic_key d (ic_key (d ! i))) \<and>
      enrollment_est (step_A (row_targets ic_key ic d) d ! i) < 0"
    if h: "i < length d" "lookup_get ic (ic_key (d ! i)) < 0"
      "eps < group_sum ic_key d (ic_key (d ! i))" "0 < enrollment_est (d ! i)"
  proof -
    have v: "enrollment_est (step_A (row_targets ic_key ic d) d ! i) =
        enrollment_est (d ! i) * (lookup_get ic (ic_key (d ! i)) / group_sum ic_key d (ic_key (d ! i)))"
      using h(1,3) by (simp add: step_A_def row_targets_def scale_step_nth)
    have "0 < group_sum ic_key d (ic_key (d ! i))"
      using h(3) eps_pos by linarith
    then have "lookup_get ic (ic_key (d ! i)) / group_sum ic_key d (ic_key (d ! i)) < 0"
      using h(2) by (simp add: divide_neg_pos)
    with h(4) have "enrollment_est (d ! i) *
        (lookup_get ic (ic_key (d ! i)) / group_sum ic_key d (ic_key (d ! i))) < 0"
      by (rule mult_pos_neg)
    with v show ?thesis by simp
  qed
  have c1: "lookup_get (set_index (filter (\<lambda>t. t_year t = y) (clean_targets tidy raw))) (k, c) =
     sum_list (map (\<lambda>r. to_numeric_fillna (raw_enrollees r))
       (filter (\<lambda>r. raw_year r = y \<and> raw_key r = k \<and> tidy (raw_county r) = c) raw))"
    by (rule clean_targets_lookup)
  have c2: "to_numeric_fillna (Some v) = v"
    by (simp add: to_numeric_fillna_def)
  have c3: "(\<exists>e. run_ipf alloc (clean_targets tidy raw) cm max_iter tol = Inl e) \<longleftrightarrow> alloc = []"
    by (rule run_ipf_fails_iff)
  from c1 c2 c3 out stepA show ?thesis
    by blast
qed

theorem negative_target_absorbed_witness:
  "lookup_get (set_index (filter (\<lambda>t. t_year t = 2020) (clean_targets id neg_raw_ci))) (''X'', ''A'') = - 5 \<and>
   nonneg neg_zero \<and>
   enrollment_est (step_A (row_targets ic_key [((''X'', ''A''), - 5)] neg_alloc) neg_alloc ! 0) < 0"
proof -
  have s: "sum_list (map (\<lambda>r. to_numeric_fillna (raw_enrollees r))
       (filter (\<lambda>r. raw_year r = 2020 \<and> raw_key r = ''X'' \<and> id (raw_county r) = ''A'') neg_raw_ci)) = - 5"
    by (simp add: neg_raw_ci_def to_numeric_fillna_def)
  have h: "0 < length neg_alloc \<and> lookup_get [((''X'', ''A''), - 5)] (ic_key (neg_alloc ! 0)) < 0 \<and>
    eps < group_sum ic_key neg_alloc (ic_key (neg_alloc ! 0)) \<and> 0 < enrollment_est (neg_alloc ! 0)"
    by (simp add: neg_alloc_def ex_cell_def lookup_get_def ic_key_def group_sum_def eps_def)
  show ?thesis
    using negative_target_absorbed [of 2020 id neg_raw_ci "''X''" "''A''" "- 5" neg_alloc
        "clean_targets id neg_raw_cm" 100 "1 / 1000" 0 neg_alloc "[((''X'', ''A''), - 5)]"]
      neg_run h
    unfolding s by blast
qed

section \<open>Rounding and the margins\<close>

lemma floor_log2:
  assumes "2 powi e \<le> x" "x < 2 powi (e + 1)"
  shows "\<lfloor>Transcendental.log 2 x\<rfloor> = e"
proof -
  have "(0::real) < 2 powi e"
    by simp
  with assms(1) have pos: "0 < x"
    by linarith
  have a: "2 powr (of_int e) = (2::real) powi e" for e
    by (simp add: powr_real_of_int' power_int_def)
  have "of_int e \<le> Transcendental.log 2 x"
    using assms(1) pos by (simp add: le_log_iff a)
  moreover have "Transcendental.log 2 x < of_int e + 1"
    using assms(2) pos a [of "e + 1"] by (simp add: log_less_iff)
  ultimately show ?thesis
    by (simp add: floor_unique)
qed

lemma fl64_range:
  assumes "2 powi e \<le> \<bar>x\<bar>" "\<bar>x\<bar> < 2 powi (e + 1)"
  shows "fl64 x = fl64_at e x"
proof -
  have "(0::real) < 2 powi e"
    by simp
  with assms(1) have "x \<noteq> 0"
    by linarith
  then show ?thesis
    by (simp add: fl64_def floor_log2 [OF assms])
qed

lemma fl64_0: "1 \<le> \<bar>x\<bar> \<Longrightarrow> \<bar>x\<bar> < 2 \<Longrightarrow> fl64 x = fl64_at 0 x"
  using fl64_range [of 0 x] by simp

lemma fl64_1: "2 \<le> \<bar>x\<bar> \<Longrightarrow> \<bar>x\<bar> < 4 \<Longrightarrow> fl64 x = fl64_at 1 x"
  using fl64_range [of 1 x] by simp

lemma fl64_2: "4 \<le> \<bar>x\<bar> \<Longrightarrow> \<bar>x\<bar> < 8 \<Longrightarrow> fl64 x = fl64_at 2 x"
  using fl64_range [of 2 x] by simp

lemma fl64_m3: "1 / 8 \<le> \<bar>x\<bar> \<Longrightarrow> \<bar>x\<bar> < 1 / 4 \<Longrightarrow> fl64 x = fl64_at (- 3) x"
  using fl64_range [of "- 3" x] by (simp add: power_int_minus)

lemma eps64_val: "eps64 = 7737125245533627 / 77371252455336267181195264"
proof -
  have "fl64 eps = fl64_at (- 34) eps"
    by (rule fl64_range) (simp_all add: eps_def power_int_minus)
  then show ?thesis
    by (simp add: eps64_def eps_def fl64_at_def round_half_even_def Let_def power_int_minus)
qed

lemmas fl64_simps = fl64_0 fl64_1 fl64_2 fl64_at_def round_half_even_def Let_def power_int_minus
lemmas step64_defs = step_A64_def step_B64_def scale_step64_def group_sum64_def sum64_def
  assign_est_def estimates_def row_targets_def lookup_get_def ic_key_def mc_key_def

lemma fb_step_A:
  "step_A64 (row_targets ic_key fb_ic fb_table) fb_table = fb_table"
  by (simp add: fb_table_def fb_ic_def ex_cell_def step64_defs eps64_val fl64_simps)

lemma fb_step_B:
  "estimates (step_B64 (row_targets mc_key fb_mc fb_table) fb_table) =
     [5254199565265579 / 4503599627370496, 3283874728290987 / 562949953421312]"
  by (simp add: fb_table_def fb_mc_def ex_cell_def step64_defs eps64_val fl64_simps)

lemma fa_step_A:
  "estimates (step_A64 (row_targets ic_key fa_ic fa_table) fa_table) =
     [3152519739159347 / 1125899906842624, 1182194902184755 / 281474976710656]"
  by (simp add: fa_table_def fa_ic_def ex_cell_def step64_defs eps64_val fl64_simps)

text \<open>
  C1 does not hold in the arithmetic of the source. Two cells of 2 and 3 in one
  (insurer, county) group with target 7: the factor is the binary64 quotient \<open>7 / 5\<close>,
  the products are rounded again, and the new estimates sum to \<open>7 - 1/2^50\<close>, whether
  they are added exactly or in binary64.
\<close>

theorem step_A_float_counterexample:
  "eps64 < group_sum64 ic_key fa_table (''X'', ''A'') \<and>
   lookup_get fa_ic (''X'', ''A'') = 7 \<and>
   estimates (step_A64 (row_targets ic_key fa_ic fa_table) fa_table) =
     [3152519739159347 / 1125899906842624, 1182194902184755 / 281474976710656] \<and>
   sum_list (estimates (step_A64 (row_targets ic_key fa_ic fa_table) fa_table)) = 7 - 1 / 2 ^ 50 \<and>
   sum64 (estimates (step_A64 (row_targets ic_key fa_ic fa_table) fa_table)) = 7 - 1 / 2 ^ 50"
  unfolding fa_step_A
  by (simp add: fa_table_def fa_ic_def ex_cell_def group_sum64_def sum64_def lookup_get_def
      ic_key_def eps64_val fl64_simps)

text \<open>
  C10 does not hold in the arithmetic of the source. Cells of 1 and 5 of two insurers
  with IC targets 1 and 5 and one metal tier with MC target 7: Step A leaves the table as
  it is, Step B multiplies by the binary64 quotient \<open>7 / 6\<close>, and the new estimates sum
  to \<open>7 + 3/2^52\<close> exactly and to \<open>7 + 1/2^50\<close> in binary64, not to the target.
\<close>

theorem step_B_float_counterexample:
  "step_A64 (row_targets ic_key fb_ic fb_table) fb_table = fb_table \<and>
   eps64 < group_sum64 mc_key fb_table (''Bronze'', ''A'') \<and>
   lookup_get fb_mc (''Bronze'', ''A'') = 7 \<and>
   estimates (step_B64 (row_targets mc_key fb_mc fb_table) fb_table) =
     [5254199565265579 / 4503599627370496, 3283874728290987 / 562949953421312] \<and>
   sum_list (estimates (step_B64 (row_targets mc_key fb_mc fb_table) fb_table)) = 7 + 3 / 2 ^ 52 \<and>
   sum64 (estimates (step_B64 (row_targets mc_key fb_mc fb_table) fb_table)) = 7 + 1 / 2 ^ 50"
  unfolding fb_step_A fb_step_B
  by (simp add: fb_table_def fb_mc_def ex_cell_def group_sum64_def sum64_def lookup_get_def
      mc_key_def eps64_val fl64_simps)

section \<open>The initial allocation\<close>

lemma clean_crosswalk_rows:
  "clean_crosswalk tidy raw =
     map (\<lambda>(c, ra). \<lparr>cw_county = c, cw_rating_area = ra,
            weight = (case ra of
                        None \<Rightarrow> None
                      | Some a \<Rightarrow>
                          if n_per_ra (map (\<lambda>(name, ra). (map_option (\<lambda>s. replace_la (tidy s)) name, ra)) raw) a = 0
                          then None
                          else Some (1 / real (n_per_ra
                                 (map (\<lambda>(name, ra). (map_option (\<lambda>s. replace_la (tidy s)) name, ra)) raw) a)))\<rparr>)
         (map (\<lambda>(name, ra). (map_option (\<lambda>s. replace_la (tidy s)) name, ra)) raw)"
  by (simp add: clean_crosswalk_def Let_def)

lemma named_of_ra_clean:
  "named_of_ra (clean_crosswalk tidy raw) a =
     n_per_ra (map (\<lambda>(name, ra). (map_option (\<lambda>s. replace_la (tidy s)) name, ra)) raw) a"
proof -
  have "length (filter P (map f xs)) = length (filter (P \<circ> f) xs)" for P and f :: "'a \<Rightarrow> 'b" and xs
    by (simp add: filter_map)
  then show ?thesis
    unfolding named_of_ra_def rows_of_ra_def n_per_ra_def clean_crosswalk_rows filter_filter
    by (simp add: comp_def case_prod_unfold conj_commute)
qed

lemma clean_crosswalk_weight:
  assumes "r \<in> set (clean_crosswalk tidy raw)" "cw_rating_area r = Some a"
  shows "weight r = (if named_of_ra (clean_crosswalk tidy raw) a = 0 then None
                     else Some (1 / real (named_of_ra (clean_crosswalk tidy raw) a)))"
  using assms unfolding named_of_ra_clean
  by (auto simp: clean_crosswalk_rows)

lemma merge_rows_counties:
  "map a_county (merge_rows b cw) = map cw_county (rows_of_ra cw (b_rating_area b))"
  by (simp add: merge_rows_def rows_of_ra_def emit_cell_def comp_def)

lemma merge_rows_count:
  "length (filter (\<lambda>c. a_county c = k) (merge_rows b cw)) =
     length (filter (\<lambda>r. cw_county r = k) (rows_of_ra cw (b_rating_area b)))"
proof -
  have "filter (\<lambda>c. a_county c = k) (merge_rows b cw) =
          map (emit_cell b) (filter (\<lambda>r. cw_county r = k) (rows_of_ra cw (b_rating_area b)))"
    by (simp add: merge_rows_def rows_of_ra_def filter_map comp_def emit_cell_def)
  then show ?thesis
    by simp
qed

lemma distinct_count_one:
  assumes "distinct (map f xs)" "x \<in> set xs"
  shows "length (filter (\<lambda>y. f y = f x) xs) = 1"
  using assms
proof (induction xs)
  case Nil
  then show ?case by simp
next
  case (Cons a xs)
  show ?case
  proof (cases "f a = f x")
    case True
    have "f a \<notin> f ` set xs"
      using Cons.prems(1) by simp
    then have "\<forall>y\<in>set xs. f y \<noteq> f x"
      unfolding True by (metis imageI)
    then have "filter (\<lambda>y. f y = f x) xs = []"
      by (simp add: filter_empty_conv)
    with True show ?thesis by simp
  next
    case False
    then have "x \<in> set xs"
      using Cons.prems(2) by auto
    with Cons False show ?thesis by simp
  qed
qed

lemma distinct_named_counties:
  assumes "distinct (map (\<lambda>r. (cw_county r, cw_rating_area r)) cw)"
  shows "named_of_ra cw a = card {k. \<exists>r\<in>set cw. cw_county r = Some k \<and> cw_rating_area r = Some a}"
proof -
  let ?sel = "filter (\<lambda>r. cw_county r \<noteq> None) (rows_of_ra cw a)"
  have sel: "?sel = filter (\<lambda>r. cw_rating_area r = Some a \<and> cw_county r \<noteq> None) cw"
    by (simp add: rows_of_ra_def conj_commute)
  have "distinct (map (\<lambda>r. (cw_county r, cw_rating_area r)) ?sel)"
    unfolding sel using assms by (rule distinct_map_filter)
  then have d: "distinct ?sel" and inj: "inj_on (\<lambda>r. (cw_county r, cw_rating_area r)) (set ?sel)"
    by (simp_all add: distinct_map)
  have "inj_on (\<lambda>r. the (cw_county r)) (set ?sel)"
  proof (rule inj_onI)
    fix r r' assume r: "r \<in> set ?sel" "r' \<in> set ?sel" "the (cw_county r) = the (cw_county r')"
    then have "cw_county r = cw_county r'" "cw_rating_area r = cw_rating_area r'"
      by (auto simp: rows_of_ra_def)
    then have "(cw_county r, cw_rating_area r) = (cw_county r', cw_rating_area r')"
      by simp
    with inj r(1,2) show "r = r'"
      by (meson inj_onD)
  qed
  with d have "distinct (map (\<lambda>r. the (cw_county r)) ?sel)"
    by (simp add: distinct_map)
  then have "card (set (map (\<lambda>r. the (cw_county r)) ?sel)) = length (map (\<lambda>r. the (cw_county r)) ?sel)"
    by (rule distinct_card)
  moreover have "set (map (\<lambda>r. the (cw_county r)) ?sel) =
      {k. \<exists>r\<in>set cw. cw_county r = Some k \<and> cw_rating_area r = Some a}"
    by (force simp: rows_of_ra_def)
  ultimately show ?thesis
    by (simp add: named_of_ra_def)
qed

lemma la_clean:
  "clean_crosswalk id la_raw =
     [\<lparr>cw_county = Some ''LOS ANGELES'', cw_rating_area = Some 15, weight = Some (1 / 2)\<rparr>,
      \<lparr>cw_county = Some ''LOS ANGELES'', cw_rating_area = Some 15, weight = Some (1 / 2)\<rparr>]"
  by (simp add: clean_crosswalk_def la_raw_def replace_la_def n_per_ra_def)

lemma blank_clean:
  "clean_crosswalk id blank_raw =
     [\<lparr>cw_county = Some ''ALPINE'', cw_rating_area = Some 1, weight = Some 1\<rparr>,
      \<lparr>cw_county = None, cw_rating_area = Some 1, weight = Some 1\<rparr>]"
  by (simp add: clean_crosswalk_def blank_raw_def replace_la_def n_per_ra_def)

text \<open>
  C8 does not hold. The crosswalk \<open>la_raw\<close> maps one county, Los Angeles, to rating
  area 15, in two rows: the observation of 1000 enrollees in that rating area gets two
  cells for the county, each of 500, the weight being one over the number of rows, not
  over the number of counties. In \<open>blank_raw\<close> one of the two rows of the rating area
  has no county name: the count is 1, both rows get the weight 1, and the weights sum to
  2. And the six binary64 weights \<open>1.0 / 6\<close> of a rating area of six counties have
  the exact sum \<open>1 - 1/2^54\<close>.
\<close>

theorem one_cell_per_county_counterexample:
  "remdups (map cw_county (rows_of_ra (clean_crosswalk id la_raw) 15)) = [Some ''LOS ANGELES''] \<and>
   initial_allocation la_base (clean_crosswalk id la_raw) =
     [\<lparr>a_year = 2020, a_county = Some ''LOS ANGELES'', a_rating_area = 15, a_insurer = ''X'',
       a_plan = ''HMO'', a_metal_tier = ''Bronze'', a_estimate = Some 500\<rparr>,
      \<lparr>a_year = 2020, a_county = Some ''LOS ANGELES'', a_rating_area = 15, a_insurer = ''X'',
       a_plan = ''HMO'', a_metal_tier = ''Bronze'', a_estimate = Some 500\<rparr>] \<and>
   map weight (rows_of_ra (clean_crosswalk id blank_raw) 1) = [Some 1, Some 1] \<and>
   weight64 6 = 6004799503160661 / 36028797018963968 \<and>
   sum_list [weight64 6, weight64 6, weight64 6, weight64 6, weight64 6, weight64 6] = 1 - 1 / 2 ^ 54"
proof -
  have w: "weight64 6 = 6004799503160661 / 36028797018963968"
    by (simp add: weight64_def fl64_m3 fl64_at_def round_half_even_def Let_def power_int_minus)
  show ?thesis
    unfolding la_clean blank_clean w
    by (simp add: initial_allocation_def merge_rows_def emit_cell_def la_base_def rows_of_ra_def)
qed

text \<open>
  C8, amended. For every base observation and every crosswalk row of its rating area,
  the initial allocation emits one cell, with the county entry of that row and the
  estimate \<open>enrollment * w\<close>, where \<open>w = 1 / n\<close> and \<open>n\<close> is the number of rows of the
  rating area that have a county name (no finite number when there is none). A finite
  weight lies in \<open>(0, 1]\<close>, and when every row of a rating area has a county name its
  rows are \<open>n\<close> rows of weight \<open>1 / n\<close> each. When no (county, rating area) pair is
  listed twice, there is one cell for every county entry of the rating area, and \<open>n\<close>
  is the number of its counties.
\<close>

theorem initial_allocation_rows:
  fixes tidy :: "string \<Rightarrow> string" and raw :: "(string option \<times> int option) list"
  defines "cw \<equiv> clean_crosswalk tidy raw"
  shows "initial_allocation (base1 @ b # base2) cw =
           initial_allocation base1 cw @ merge_rows b cw @ initial_allocation base2 cw \<and>
         map a_county (merge_rows b cw) = map cw_county (rows_of_ra cw (b_rating_area b)) \<and>
         (\<forall>c\<in>set (merge_rows b cw).
            a_estimate c = (if named_of_ra cw (b_rating_area b) = 0 then None
                            else Some (enrollment b * (1 / real (named_of_ra cw (b_rating_area b)))))) \<and>
         (\<forall>r\<in>set (rows_of_ra cw a).
            weight r = (if named_of_ra cw a = 0 then None else Some (1 / real (named_of_ra cw a))) \<and>
            (\<forall>w. weight r = Some w \<longrightarrow> 0 < w \<and> w \<le> 1)) \<and>
         ((\<forall>r\<in>set (rows_of_ra cw a). cw_county r \<noteq> None) \<and> rows_of_ra cw a \<noteq> [] \<longrightarrow>
            length (rows_of_ra cw a) = named_of_ra cw a \<and>
            map weight (rows_of_ra cw a) =
              replicate (named_of_ra cw a) (Some (1 / real (named_of_ra cw a)))) \<and>
         (distinct (map (\<lambda>r. (cw_county r, cw_rating_area r)) cw) \<longrightarrow>
            (\<forall>r\<in>set (rows_of_ra cw (b_rating_area b)).
               length (filter (\<lambda>c. a_county c = cw_county r) (merge_rows b cw)) = 1) \<and>
            named_of_ra cw a =
              card {k. \<exists>r\<in>set cw. cw_county r = Some k \<and> cw_rating_area r = Some a})"
proof -
  have wt: "weight r = (if named_of_ra cw a' = 0 then None else Some (1 / real (named_of_ra cw a')))"
    if "r \<in> set (rows_of_ra cw a')" for r a'
    using that clean_crosswalk_weight [of r tidy raw a'] by (simp add: cw_def rows_of_ra_def)
  have c1: "initial_allocation (base1 @ b # base2) cw =
           initial_allocation base1 cw @ merge_rows b cw @ initial_allocation base2 cw"
    by (simp add: initial_allocation_def)
  have c2: "map a_county (merge_rows b cw) = map cw_county (rows_of_ra cw (b_rating_area b))"
    by (rule merge_rows_counties)
  have c3: "\<forall>c\<in>set (merge_rows b cw).
            a_estimate c = (if named_of_ra cw (b_rating_area b) = 0 then None
                            else Some (enrollment b * (1 / real (named_of_ra cw (b_rating_area b)))))"
  proof
    fix c assume "c \<in> set (merge_rows b cw)"
    then obtain r where r: "r \<in> set (rows_of_ra cw (b_rating_area b))" "c = emit_cell b r"
      by (auto simp: merge_rows_def rows_of_ra_def)
    show "a_estimate c = (if named_of_ra cw (b_rating_area b) = 0 then None
                            else Some (enrollment b * (1 / real (named_of_ra cw (b_rating_area b)))))"
      unfolding r(2) using wt [OF r(1)] by (simp add: emit_cell_def)
  qed
  have c4: "\<forall>r\<in>set (rows_of_ra cw a).
            weight r = (if named_of_ra cw a = 0 then None else Some (1 / real (named_of_ra cw a))) \<and>
            (\<forall>w. weight r = Some w \<longrightarrow> 0 < w \<and> w \<le> 1)"
  proof (intro ballI conjI allI impI)
    fix r assume r: "r \<in> set (rows_of_ra cw a)"
    show "weight r = (if named_of_ra cw a = 0 then None else Some (1 / real (named_of_ra cw a)))"
      using r by (rule wt)
    fix w assume "weight r = Some w"
    with wt [OF r] have n: "named_of_ra cw a \<noteq> 0" and w: "w = 1 / real (named_of_ra cw a)"
      by (auto split: if_splits)
    from n have "1 \<le> real (named_of_ra cw a)"
      by simp
    then show "0 < w" "w \<le> 1"
      unfolding w by (simp_all add: divide_le_eq_1)
  qed
  have c5: "(\<forall>r\<in>set (rows_of_ra cw a). cw_county r \<noteq> None) \<and> rows_of_ra cw a \<noteq> [] \<longrightarrow>
            length (rows_of_ra cw a) = named_of_ra cw a \<and>
            map weight (rows_of_ra cw a) =
              replicate (named_of_ra cw a) (Some (1 / real (named_of_ra cw a)))"
  proof (intro impI, elim conjE)
    assume named: "\<forall>r\<in>set (rows_of_ra cw a). cw_county r \<noteq> None" and ne: "rows_of_ra cw a \<noteq> []"
    from named have len: "length (rows_of_ra cw a) = named_of_ra cw a"
      by (simp add: named_of_ra_def filter_id_conv)
    have "length (rows_of_ra cw a) \<noteq> 0"
      using ne by simp
    then have pos: "named_of_ra cw a \<noteq> 0"
      unfolding len .
    have "map weight (rows_of_ra cw a) =
            map (\<lambda>r. Some (1 / real (named_of_ra cw a))) (rows_of_ra cw a)"
      by (rule map_cong) (simp_all add: wt pos)
    also have "\<dots> = replicate (length (rows_of_ra cw a)) (Some (1 / real (named_of_ra cw a)))"
      by (simp add: map_replicate_const)
    finally show "length (rows_of_ra cw a) = named_of_ra cw a \<and>
            map weight (rows_of_ra cw a) =
              replicate (named_of_ra cw a) (Some (1 / real (named_of_ra cw a)))"
      using len by simp
  qed
  have c6: "distinct (map (\<lambda>r. (cw_county r, cw_rating_area r)) cw) \<longrightarrow>
            (\<forall>r\<in>set (rows_of_ra cw (b_rating_area b)).
               length (filter (\<lambda>c. a_county c = cw_county r) (merge_rows b cw)) = 1) \<and>
            named_of_ra cw a =
              card {k. \<exists>r\<in>set cw. cw_county r = Some k \<and> cw_rating_area r = Some a}"
  proof (intro impI conjI ballI)
    assume d: "distinct (map (\<lambda>r. (cw_county r, cw_rating_area r)) cw)"
    then show "named_of_ra cw a =
        card {k. \<exists>r\<in>set cw. cw_county r = Some k \<and> cw_rating_area r = Some a}"
      by (rule distinct_named_counties)
    fix r assume r: "r \<in> set (rows_of_ra cw (b_rating_area b))"
    then have rin: "r \<in> set cw" and ra: "cw_rating_area r = Some (b_rating_area b)"
      by (simp_all add: rows_of_ra_def)
    have one: "length (filter (\<lambda>r'. (cw_county r', cw_rating_area r') = (cw_county r, cw_rating_area r)) cw) = 1"
      using d rin by (rule distinct_count_one)
    have eq: "filter (\<lambda>r'. (cw_county r', cw_rating_area r') = (cw_county r, cw_rating_area r)) cw =
              filter (\<lambda>r'. cw_county r' = cw_county r) (rows_of_ra cw (b_rating_area b))"
      unfolding rows_of_ra_def filter_filter using ra by (intro filter_cong) auto
    from one [unfolded eq]
    show "length (filter (\<lambda>c. a_county c = cw_county r) (merge_rows b cw)) = 1"
      unfolding merge_rows_count .
  qed
  from c1 c2 c3 c4 c5 c6 show ?thesis
    by blast
qed

theorem initial_allocation_rows_witness:
  "map a_county (merge_rows ok_base (clean_crosswalk id ok_raw)) = [Some ''ALPINE'', Some ''AMADOR''] \<and>
   a_estimate (merge_rows ok_base (clean_crosswalk id ok_raw) ! 0) = Some 500 \<and>
   map weight (rows_of_ra (clean_crosswalk id ok_raw) 1) = [Some (1 / 2), Some (1 / 2)] \<and>
   length (filter (\<lambda>c. a_county c = Some ''ALPINE'') (merge_rows ok_base (clean_crosswalk id ok_raw))) = 1 \<and>
   named_of_ra (clean_crosswalk id ok_raw) 1 =
     card {k. \<exists>r\<in>set (clean_crosswalk id ok_raw). cw_county r = Some k \<and> cw_rating_area r = Some 1}"
proof -
  have cl: "clean_crosswalk id ok_raw =
      [\<lparr>cw_county = Some ''ALPINE'', cw_rating_area = Some 1, weight = Some (1 / 2)\<rparr>,
       \<lparr>cw_county = Some ''AMADOR'', cw_rating_area = Some 1, weight = Some (1 / 2)\<rparr>,
       \<lparr>cw_county = Some ''KERN'', cw_rating_area = Some 14, weight = Some 1\<rparr>]"
    by (simp add: clean_crosswalk_def ok_raw_def replace_la_def n_per_ra_def)
  have rows: "map cw_county (rows_of_ra (clean_crosswalk id ok_raw) (b_rating_area ok_base)) =
                [Some ''ALPINE'', Some ''AMADOR'']"
    unfolding cl by (simp add: rows_of_ra_def ok_base_def)
  have named: "\<forall>r\<in>set (rows_of_ra (clean_crosswalk id ok_raw) 1). cw_county r \<noteq> None"
    "rows_of_ra (clean_crosswalk id ok_raw) 1 \<noteq> []"
    unfolding cl by (simp_all add: rows_of_ra_def)
  have dist: "distinct (map (\<lambda>r. (cw_county r, cw_rating_area r)) (clean_crosswalk id ok_raw))"
    unfolding cl by simp
  have r0: "rows_of_ra (clean_crosswalk id ok_raw) (b_rating_area ok_base) ! 0 \<in>
              set (rows_of_ra (clean_crosswalk id ok_raw) (b_rating_area ok_base))"
    "cw_county (rows_of_ra (clean_crosswalk id ok_raw) (b_rating_area ok_base) ! 0) = Some ''ALPINE''"
    unfolding cl by (simp_all add: rows_of_ra_def ok_base_def)
  have m0: "merge_rows ok_base (clean_crosswalk id ok_raw) ! 0 \<in>
              set (merge_rows ok_base (clean_crosswalk id ok_raw))"
    unfolding cl by (simp add: merge_rows_def ok_base_def)
  have n: "named_of_ra (clean_crosswalk id ok_raw) (b_rating_area ok_base) = 2"
    "named_of_ra (clean_crosswalk id ok_raw) 1 = 2" "enrollment ok_base = 1000"
    unfolding cl by (simp_all add: named_of_ra_def rows_of_ra_def ok_base_def)
  note t = initial_allocation_rows [where ?base1.0 = "[]" and b = ok_base and ?base2.0 = "[]"
      and tidy = id and raw = ok_raw and a = 1]
  from t have a: "map a_county (merge_rows ok_base (clean_crosswalk id ok_raw)) =
      map cw_county (rows_of_ra (clean_crosswalk id ok_raw) (b_rating_area ok_base))"
    by blast
  from t m0 have "a_estimate (merge_rows ok_base (clean_crosswalk id ok_raw) ! 0) =
      (if named_of_ra (clean_crosswalk id ok_raw) (b_rating_area ok_base) = 0 then None
       else Some (enrollment ok_base *
                  (1 / real (named_of_ra (clean_crosswalk id ok_raw) (b_rating_area ok_base)))))"
    by blast
  then have b: "a_estimate (merge_rows ok_base (clean_crosswalk id ok_raw) ! 0) = Some 500"
    unfolding n by simp
  from t named have "map weight (rows_of_ra (clean_crosswalk id ok_raw) 1) =
      replicate (named_of_ra (clean_crosswalk id ok_raw) 1)
        (Some (1 / real (named_of_ra (clean_crosswalk id ok_raw) 1)))"
    by blast
  then have c: "map weight (rows_of_ra (clean_crosswalk id ok_raw) 1) = [Some (1 / 2), Some (1 / 2)]"
    unfolding n by (simp add: numeral_2_eq_2)
  from t dist r0(1) have "length (filter (\<lambda>c. a_county c =
        cw_county (rows_of_ra (clean_crosswalk id ok_raw) (b_rating_area ok_base) ! 0))
      (merge_rows ok_base (clean_crosswalk id ok_raw))) = 1"
    by blast
  then have d: "length (filter (\<lambda>c. a_county c = Some ''ALPINE'')
      (merge_rows ok_base (clean_crosswalk id ok_raw))) = 1"
    unfolding r0(2) .
  from t dist have e: "named_of_ra (clean_crosswalk id ok_raw) 1 =
     card {k. \<exists>r\<in>set (clean_crosswalk id ok_raw). cw_county r = Some k \<and> cw_rating_area r = Some 1}"
    by blast
  from a [unfolded rows] b c d e show ?thesis
    by blast
qed

end
